theory Spec2Isabelle
  imports Complex_Main "HOL-Library.Word"
begin

section \<open>JavaScript strings\<close>

text \<open>
  A JavaScript string is a sequence of UTF-16 code units: \<^verbatim>\<open>s.length\<close> counts code units,
  \<^verbatim>\<open>s[i]\<close> and \<^verbatim>\<open>s.charCodeAt(i)\<close> read one code unit, and \<^verbatim>\<open>===\<close> compares the two
  sequences of code units. Numbers that hold code units, lengths and indices are
  non-negative integers far below \<open>2^53\<close>, so they are modelled as \<open>nat\<close>.
\<close>

type_synonym code_unit = "16 word"
type_synonym jsstring = "code_unit list"

definition is_high_surrogate :: "code_unit \<Rightarrow> bool" where
  "is_high_surrogate u = (0xD800 \<le> unat u \<and> unat u \<le> 0xDBFF)"

definition is_low_surrogate :: "code_unit \<Rightarrow> bool" where
  "is_low_surrogate u = (0xDC00 \<le> unat u \<and> unat u \<le> 0xDFFF)"

text \<open>
  \<^verbatim>\<open>Array.from(text)\<close> and \<^verbatim>\<open>for (const char of text)\<close> both run the string iterator:
  it yields one string per code point, two code units long for a high surrogate followed
  by a low surrogate and one code unit long otherwise (a lone surrogate is yielded as it is).
\<close>

fun Array_from :: "jsstring \<Rightarrow> jsstring list" where
  "Array_from [] = []"
| "Array_from [u] = [[u]]"
| "Array_from (u # v # rest) =
     (if is_high_surrogate u \<and> is_low_surrogate v
      then [u, v] # Array_from rest
      else [u] # Array_from (v # rest))"

text \<open>\<^verbatim>\<open>s.charCodeAt(i)\<close>: the code unit at \<open>i\<close>, or \<open>NaN\<close> (here \<open>None\<close>) out of range.\<close>

definition charCodeAt :: "jsstring \<Rightarrow> nat \<Rightarrow> nat option" where
  "charCodeAt s i = (if i < length s then Some (unat (s ! i)) else None)"

text \<open>Reading an array element: \<^verbatim>\<open>undefined\<close> (here \<open>None\<close>) out of range.\<close>

definition array_get :: "'a list \<Rightarrow> nat \<Rightarrow> 'a option" where
  "array_get xs i = (if i < length xs then Some (xs ! i) else None)"

text \<open>
  A string operand of \<^verbatim>\<open>+=\<close> or of a template literal: \<^verbatim>\<open>undefined\<close> is converted to
  the nine letters \<^verbatim>\<open>undefined\<close>.
\<close>

definition to_string :: "jsstring option \<Rightarrow> jsstring" where
  "to_string v = (case v of
      None \<Rightarrow> [0x75, 0x6E, 0x64, 0x65, 0x66, 0x69, 0x6E, 0x65, 0x64]
    | Some s \<Rightarrow> s)"

text \<open>Truthiness of a string or \<^verbatim>\<open>undefined\<close>: only a non-empty string is truthy.\<close>

definition truthy :: "jsstring option \<Rightarrow> bool" where
  "truthy v = (case v of None \<Rightarrow> False | Some s \<Rightarrow> s \<noteq> [])"

section \<open>JavaScript numbers\<close>

text \<open>
  A Number is an IEEE 754 binary64 value. The numbers the scorer computes are finite;
  each is modelled as the real number it denotes, and each arithmetic operation returns
  the exact result rounded to the nearest binary64 value, a tie going to the even
  significand. A binary64 value is an integer of at most 53 bits times a power of two
  whose exponent is at least -1074. Every magnitude computed here is at most 100, so no
  operation overflows; the divisor of the one division is the length of a non-empty
  string.
\<close>

text \<open>The number of binary digits of a natural number.\<close>

fun bit_length :: "nat \<Rightarrow> nat" where
  "bit_length n = (if n = 0 then 0 else Suc (bit_length (n div 2)))"

declare bit_length.simps [simp del]

text \<open>The integer \<open>k\<close> with \<open>2^k \<le> x < 2^(k + 1)\<close>, for a positive \<open>x\<close>.\<close>

definition binade :: "real \<Rightarrow> int" where
  "binade x =
     (if 1 \<le> x then int (bit_length (nat \<lfloor>x\<rfloor>)) - 1
      else - int (bit_length (nat (\<lceil>1 / x\<rceil> - 1))))"

definition pow2 :: "int \<Rightarrow> real" where
  "pow2 e = (if 0 \<le> e then 2 ^ nat e else 1 / 2 ^ nat (- e))"

text \<open>
  The exponent of the unit in the last place of the binary64 values around a positive
  \<open>x\<close>: 52 below the binade for a normal number, -1074 for a subnormal one.
\<close>

definition ulp_exponent :: "real \<Rightarrow> int" where
  "ulp_exponent x = max (- 1074) (binade x - 52)"

text \<open>The integer nearest to a non-negative real, a tie going to the even one.\<close>

definition round_half_even :: "real \<Rightarrow> int" where
  "round_half_even y =
     (let n = \<lfloor>y\<rfloor>; r = y - of_int n in
      if r < 1 / 2 then n
      else if 1 / 2 < r then n + 1
      else if even n then n else n + 1)"

definition double_round :: "real \<Rightarrow> real" where
  "double_round x =
     (if x = 0 then 0
      else
        let e = ulp_exponent \<bar>x\<bar>
        in sgn x * of_int (round_half_even (\<bar>x\<bar> / pow2 e)) * pow2 e)"

text \<open>The operators \<^verbatim>\<open>/\<close>, \<^verbatim>\<open>-\<close> and \<^verbatim>\<open>*\<close> on Numbers.\<close>

definition double_div :: "real \<Rightarrow> real \<Rightarrow> real" where
  "double_div x y = double_round (x / y)"

definition double_sub :: "real \<Rightarrow> real \<Rightarrow> real" where
  "double_sub x y = double_round (x - y)"

definition double_mul :: "real \<Rightarrow> real \<Rightarrow> real" where
  "double_mul x y = double_round (x * y)"

section \<open>hangul.ts\<close>

definition HANGUL_BASE :: nat where "HANGUL_BASE = 0xAC00"
definition HANGUL_LAST :: nat where "HANGUL_LAST = 0xD7A3"
definition VOWEL_COUNT :: nat where "VOWEL_COUNT = 21"
definition FINAL_CONSONANT_COUNT :: nat where "FINAL_CONSONANT_COUNT = 28"
definition CYCLE :: nat where "CYCLE = VOWEL_COUNT * FINAL_CONSONANT_COUNT"

text \<open>The three tables, each glyph written as its code units (compatibility jamo).\<close>

definition CHOSEONG :: "jsstring list" where
  "CHOSEONG =
    [[0x3131], [0x3132], [0x3134], [0x3137], [0x3138], [0x3139], [0x3141], [0x3142],
     [0x3143], [0x3145], [0x3146], [0x3147], [0x3148], [0x3149], [0x314A], [0x314B],
     [0x314C], [0x314D], [0x314E]]"

definition JUNGSEONG :: "jsstring list" where
  "JUNGSEONG =
    [[0x314F], [0x3150], [0x3151], [0x3152], [0x3153], [0x3154], [0x3155], [0x3156],
     [0x3157], [0x3158], [0x3159], [0x315A], [0x315B], [0x315C], [0x315D], [0x315E],
     [0x315F], [0x3160], [0x3161], [0x3162], [0x3163]]"

definition JONGSEONG :: "jsstring list" where
  "JONGSEONG =
    [[], [0x3131], [0x3132], [0x3133], [0x3134], [0x3135], [0x3136], [0x3137],
     [0x3139], [0x313A], [0x313B], [0x313C], [0x313D], [0x313E], [0x313F], [0x3140],
     [0x3141], [0x3142], [0x3144], [0x3145], [0x3146], [0x3147], [0x3148], [0x314A],
     [0x314B], [0x314C], [0x314D], [0x314E]]"

definition isHangulSyllable :: "nat \<Rightarrow> bool" where
  "isHangulSyllable code = (code \<ge> HANGUL_BASE \<and> code \<le> HANGUL_LAST)"

text \<open>
  The function mapped over the characters by \<^verbatim>\<open>disassembleHangul\<close>. When
  \<^verbatim>\<open>charCodeAt(0)\<close> is \<open>NaN\<close> both comparisons of \<^verbatim>\<open>isHangulSyllable\<close> are false and
  the character is returned.
\<close>

definition disassembleHangul_char :: "jsstring \<Rightarrow> jsstring" where
  "disassembleHangul_char char =
     (case charCodeAt char 0 of
        None \<Rightarrow> char
      | Some code \<Rightarrow>
          if \<not> isHangulSyllable code then char
          else
            let offset = code - HANGUL_BASE;
                choseongIndex = offset div CYCLE;
                jungseongIndex = (offset mod CYCLE) div FINAL_CONSONANT_COUNT;
                jongseongIndex = offset mod FINAL_CONSONANT_COUNT
            in to_string (array_get CHOSEONG choseongIndex)
               @ to_string (array_get JUNGSEONG jungseongIndex)
               @ to_string (array_get JONGSEONG jongseongIndex))"

definition disassembleHangul :: "jsstring \<Rightarrow> jsstring" where
  "disassembleHangul text = concat (map disassembleHangul_char (Array_from text))"

subsection \<open>sanitizeSequence\<close>

text \<open>
  \<^verbatim>\<open>toLowerCase\<close> is a built-in of the language. The model is exact on every code unit
  whose lowercase image contains a code unit that the two \<^verbatim>\<open>replace\<close> calls of
  \<^verbatim>\<open>sanitizeSequence\<close> keep: the letters A to Z, U+0130 (lowercased to \<open>i\<close> followed by
  U+0307) and U+212A (the Kelvin sign, lowercased to \<open>k\<close>); and on every code unit without
  a lowercase mapping (digits, a to z, jamo, Hangul syllables, whitespace, surrogates).
  For the remaining cased letters the built-in yields other code units outside the kept
  alphabet and the model leaves the unit as it is; \<^verbatim>\<open>sanitizeSequence\<close>, the only caller,
  removes both.
\<close>

definition toLowerCase_unit :: "code_unit \<Rightarrow> jsstring" where
  "toLowerCase_unit u =
     (let n = unat u in
      if 0x41 \<le> n \<and> n \<le> 0x5A then [u + 0x20]
      else if n = 0x130 then [0x69, 0x307]
      else if n = 0x212A then [0x6B]
      else [u])"

definition toLowerCase :: "jsstring \<Rightarrow> jsstring" where
  "toLowerCase s = concat (map toLowerCase_unit s)"

text \<open>The class \<^verbatim>\<open>\s\<close> of a regular expression, also what \<^verbatim>\<open>trim\<close> strips.\<close>

definition is_whitespace :: "code_unit \<Rightarrow> bool" where
  "is_whitespace u =
     (let n = unat u in
      (0x09 \<le> n \<and> n \<le> 0x0D) \<or> n = 0x20 \<or> n = 0xA0 \<or> n = 0x1680
      \<or> (0x2000 \<le> n \<and> n \<le> 0x200A) \<or> n = 0x2028 \<or> n = 0x2029 \<or> n = 0x202F
      \<or> n = 0x205F \<or> n = 0x3000 \<or> n = 0xFEFF)"

text \<open>
  The complement of \<^verbatim>\<open>NON_WORD_CHARACTERS\<close>: the code units the second \<^verbatim>\<open>replace\<close>
  keeps. The expression has no \<^verbatim>\<open>u\<close> flag, so it matches code unit by code unit.
\<close>

definition is_word_character :: "code_unit \<Rightarrow> bool" where
  "is_word_character u =
     (let n = unat u in
      (0x3131 \<le> n \<and> n \<le> 0x314E) \<or> (0x314F \<le> n \<and> n \<le> 0x3163)
      \<or> (0xAC00 \<le> n \<and> n \<le> 0xD7A3) \<or> (0x61 \<le> n \<and> n \<le> 0x7A)
      \<or> (0x41 \<le> n \<and> n \<le> 0x5A) \<or> (0x30 \<le> n \<and> n \<le> 0x39))"

definition sanitizeSequence :: "jsstring \<Rightarrow> jsstring" where
  "sanitizeSequence v =
     filter is_word_character (filter (\<lambda>u. \<not> is_whitespace u) (toLowerCase v))"

subsection \<open>createPhonemeProfile\<close>

record PhonemeProfile =
  combined :: jsstring
  initial :: jsstring
  medial :: jsstring
  final :: jsstring

text \<open>One pass of the loop body of \<^verbatim>\<open>createPhonemeProfile\<close> over the four accumulators.\<close>

definition profile_step :: "PhonemeProfile \<Rightarrow> jsstring \<Rightarrow> PhonemeProfile" where
  "profile_step acc char =
     (let not_hangul =
            (let normalized = sanitizeSequence char in
             \<lparr>combined = combined acc @ normalized,
              initial = initial acc @ normalized,
              medial = medial acc @ normalized,
              final = final acc @ normalized\<rparr>)
      in case charCodeAt char 0 of
        None \<Rightarrow> not_hangul
      | Some code \<Rightarrow>
          if \<not> isHangulSyllable code then not_hangul
          else
            let offset = code - HANGUL_BASE;
                choseongIndex = offset div CYCLE;
                jungseongIndex = (offset mod CYCLE) div FINAL_CONSONANT_COUNT;
                jongseongIndex = offset mod FINAL_CONSONANT_COUNT;
                choseong = array_get CHOSEONG choseongIndex;
                jungseong = array_get JUNGSEONG jungseongIndex;
                jongseong = array_get JONGSEONG jongseongIndex
            in \<lparr>combined = combined acc @ to_string choseong @ to_string jungseong
                               @ to_string jongseong,
                initial = initial acc @ to_string choseong,
                medial = medial acc @ to_string jungseong,
                final = (if truthy jongseong then final acc @ to_string jongseong
                         else final acc)\<rparr>)"

definition createPhonemeProfile :: "jsstring \<Rightarrow> PhonemeProfile" where
  "createPhonemeProfile text =
     (let acc = foldl profile_step
                  \<lparr>combined = [], initial = [], medial = [], final = []\<rparr>
                  (Array_from text)
      in \<lparr>combined = sanitizeSequence (combined acc),
          initial = sanitizeSequence (initial acc),
          medial = sanitizeSequence (medial acc),
          final = sanitizeSequence (final acc)\<rparr>)"

definition normalizeForComparison :: "jsstring \<Rightarrow> jsstring" where
  "normalizeForComparison text = combined (createPhonemeProfile text)"

subsection \<open>levenshteinDistance\<close>

text \<open>
  The two rows are arrays of numbers. Every index the loops read or write is below
  \<^verbatim>\<open>b.length + 1\<close>, the length of both rows, so no write extends an array.
  The inner loop over \<open>j\<close>:
\<close>

function lev_inner ::
  "jsstring \<Rightarrow> jsstring \<Rightarrow> nat \<Rightarrow> nat \<Rightarrow> nat list \<Rightarrow> nat list \<Rightarrow> nat list" where
  "lev_inner a b i j previousRow currentRow =
     (if j < length b then
        let insertionCost = currentRow ! j + 1;
            deletionCost = previousRow ! (j + 1) + 1;
            substitutionCost = previousRow ! j + (if a ! i = b ! j then 0 else 1)
        in lev_inner a b i (j + 1) previousRow
             (currentRow[j + 1 := min insertionCost (min deletionCost substitutionCost)])
      else currentRow)"
  by pat_completeness auto
termination
  by (relation "measure (\<lambda>(a, b, i, j, previousRow, currentRow). length b - j)") auto

declare lev_inner.simps [simp del]

text \<open>The loop that copies the current row into the previous one.\<close>

function lev_copy :: "nat \<Rightarrow> nat list \<Rightarrow> nat list \<Rightarrow> nat list" where
  "lev_copy j previousRow currentRow =
     (if j < length currentRow
      then lev_copy (j + 1) (previousRow[j := currentRow ! j]) currentRow
      else previousRow)"
  by pat_completeness auto
termination
  by (relation "measure (\<lambda>(j, previousRow, currentRow). length currentRow - j)") auto

declare lev_copy.simps [simp del]

text \<open>The outer loop over \<open>i\<close>; it returns the previous row it ends with.\<close>

function lev_outer ::
  "jsstring \<Rightarrow> jsstring \<Rightarrow> nat \<Rightarrow> nat list \<Rightarrow> nat list \<Rightarrow> nat list" where
  "lev_outer a b i previousRow currentRow =
     (if i < length a then
        let currentRow0 = currentRow[0 := i + 1];
            currentRow1 = lev_inner a b i 0 previousRow currentRow0;
            previousRow1 = lev_copy 0 previousRow currentRow1
        in lev_outer a b (i + 1) previousRow1 currentRow1
      else previousRow)"
  by pat_completeness auto
termination
  by (relation "measure (\<lambda>(a, b, i, previousRow, currentRow). length a - i)") auto

declare lev_outer.simps [simp del]

text \<open>
  \<^verbatim>\<open>new Array<number>(b.length + 1)\<close> has \<^verbatim>\<open>b.length + 1\<close> empty slots. Each slot is
  written before the loops read it; the model takes the initial content of the slots as
  the parameter \<open>slots\<close>, and \<open>lev_rows_slots\<close> below shows that the result does not
  depend on it.
\<close>

definition levenshtein_rows :: "nat list \<Rightarrow> jsstring \<Rightarrow> jsstring \<Rightarrow> nat" where
  "levenshtein_rows slots a b =
     (if a = b then 0
      else if length a = 0 then length b
      else if length b = 0 then length a
      else
        let previousRow = [0 ..< length b + 1];
            currentRow = slots
        in lev_outer a b 0 previousRow currentRow ! length b)"

definition levenshteinDistance :: "jsstring \<Rightarrow> jsstring \<Rightarrow> nat" where
  "levenshteinDistance a b = levenshtein_rows (replicate (length b + 1) 0) a b"

subsection \<open>similarityScore\<close>

text \<open>
  \<^verbatim>\<open>distance\<close> and \<^verbatim>\<open>maxLength\<close> are integers below \<open>2^53\<close>, which Numbers hold
  exactly; the quotient and the difference are each rounded to a binary64 value.
\<close>

definition similarityScore :: "jsstring \<Rightarrow> jsstring \<Rightarrow> real" where
  "similarityScore a b =
     (if length a = 0 \<and> length b = 0 then 1
      else if length a = 0 \<or> length b = 0 then 0
      else
        let distance = levenshteinDistance a b;
            maxLength = max (length a) (length b)
        in max 0 (double_sub 1 (double_div (real distance) (real maxLength))))"

section \<open>GameView.tsx\<close>

text \<open>
  The catalog \<^verbatim>\<open>WORDS\<close> is imported from \<^verbatim>\<open>../data/words\<close>; the functions below
  take it as the parameter \<open>WORDS\<close>.
\<close>

record WordEntry =
  entry_term :: jsstring
  category :: jsstring
  hint :: jsstring
  description :: jsstring

record SimilarityBreakdown =
  overall :: int
  initial_score :: int
  medial_score :: int
  final_score :: int

record Guess =
  guess_value :: jsstring
  normalized :: jsstring
  breakdown :: SimilarityBreakdown

datatype FeedbackTone = info | success | warn

text \<open>The texts shown to the player, named by the branch that produces them.\<close>

datatype FeedbackText =
    ExactMatch | VeryClose | GoodDirection | FarButSalvageable | LowSimilarity
  | EnterAWord | NothingToCompare | AlreadyTried

record Feedback =
  tone :: FeedbackTone
  feedback_text :: FeedbackText

record PlayerStats =
  totalGuesses :: nat
  correctAnswers :: nat
  lastReset :: jsstring

definition formatFeedback :: "int \<Rightarrow> Feedback" where
  "formatFeedback ov =
     (if ov = 100 then \<lparr>tone = success, feedback_text = ExactMatch\<rparr>
      else if ov \<ge> 85 then \<lparr>tone = info, feedback_text = VeryClose\<rparr>
      else if ov \<ge> 60 then \<lparr>tone = info, feedback_text = GoodDirection\<rparr>
      else if ov \<ge> 35 then \<lparr>tone = warn, feedback_text = FarButSalvageable\<rparr>
      else \<lparr>tone = warn, feedback_text = LowSimilarity\<rparr>)"

text \<open>
  \<^verbatim>\<open>Math.round\<close> returns the integer nearest to its argument, a tie going towards plus
  infinity: for a finite Number \<open>x\<close> that is the floor of the exact sum \<open>x + 1 / 2\<close>.
\<close>

definition Math_round :: "real \<Rightarrow> int" where
  "Math_round x = \<lfloor>x + 1 / 2\<rfloor>"

text \<open>The product \<^verbatim>\<open>value * 100\<close> is rounded to a binary64 value before \<^verbatim>\<open>Math.round\<close>.\<close>

definition toPercent :: "real \<Rightarrow> int" where
  "toPercent v = Math_round (double_mul v 100)"

definition scorePhonemes :: "jsstring \<Rightarrow> PhonemeProfile \<Rightarrow> SimilarityBreakdown" where
  "scorePhonemes guess answerProfile =
     (let profile = createPhonemeProfile guess in
      \<lparr>overall = toPercent (similarityScore (combined profile) (combined answerProfile)),
       initial_score = toPercent (similarityScore (initial profile) (initial answerProfile)),
       medial_score = toPercent (similarityScore (medial profile) (medial answerProfile)),
       final_score = toPercent (similarityScore (final profile) (final answerProfile))\<rparr>)"



text \<open>
  \<^verbatim>\<open>x >>> 0\<close> on a non-negative integer below \<open>2^53\<close>: the value modulo \<open>2^32\<close>.
  The operand \<^verbatim>\<open>hash * 31 + seed.charCodeAt(i)\<close> stays below \<open>2^37\<close>, so the
  floating-point product and sum are exact.
\<close>

definition to_uint32 :: "nat \<Rightarrow> nat" where
  "to_uint32 x = x mod 2 ^ 32"

function daily_hash_loop :: "jsstring \<Rightarrow> nat \<Rightarrow> nat \<Rightarrow> nat" where
  "daily_hash_loop seed i hash =
     (if i < length seed
      then daily_hash_loop seed (i + 1) (to_uint32 (hash * 31 + unat (seed ! i)))
      else hash)"
  by pat_completeness auto
termination
  by (relation "measure (\<lambda>(seed, i, hash). length seed - i)") auto

declare daily_hash_loop.simps [simp del]

text \<open>
  With an empty catalog \<^verbatim>\<open>hash % WORDS.length\<close> is \<open>NaN\<close> and the element read is
  \<^verbatim>\<open>undefined\<close>.
\<close>

definition createDailyEntry :: "WordEntry list \<Rightarrow> jsstring \<Rightarrow> WordEntry option" where
  "createDailyEntry WORDS seed =
     (let hash = daily_hash_loop seed 0 0 in
      if length WORDS = 0 then None
      else let index = hash mod length WORDS in array_get WORDS index)"

subsection \<open>The component state and \<^verbatim>\<open>handleSubmit\<close>\<close>

datatype round_status = playing | cleared

text \<open>
  \<^verbatim>\<open>window.localStorage\<close> under the two keys \<^verbatim>\<open>handleSubmit\<close> writes; a stored value is
  the value whose JSON text is stored.
\<close>

record Storage =
  stored_solved :: "jsstring list option"
  stored_stats :: "PlayerStats option"

text \<open>
  The state hooks of \<^verbatim>\<open>GameView\<close> that \<^verbatim>\<open>handleSubmit\<close> reads or sets. The field
  \<open>localStorage\<close> is \<open>None\<close> when \<^verbatim>\<open>typeof window === 'undefined'\<close>.
\<close>

record GameState =
  currentEntry :: WordEntry
  guesses :: "Guess list"
  inputValue :: jsstring
  status :: round_status
  feedback :: "Feedback option"
  solvedTerms :: "jsstring list"
  stats :: PlayerStats
  localStorage :: "Storage option"

text \<open>\<^verbatim>\<open>String.prototype.trim\<close>: whitespace removed from both ends.\<close>

definition trim :: "jsstring \<Rightarrow> jsstring" where
  "trim s = rev (dropWhile is_whitespace (rev (dropWhile is_whitespace s)))"

definition answerProfile :: "GameState \<Rightarrow> PhonemeProfile" where
  "answerProfile s = createPhonemeProfile (entry_term (currentEntry s))"

definition recordGuess :: "bool \<Rightarrow> GameState \<Rightarrow> GameState" where
  "recordGuess correct s =
     (let prev = stats s;
          next = \<lparr>totalGuesses = totalGuesses prev + 1,
                  correctAnswers = correctAnswers prev + (if correct then 1 else 0),
                  lastReset = lastReset prev\<rparr>
      in s\<lparr>stats := next,
           localStorage := map_option (\<lambda>st. st\<lparr>stored_stats := Some next\<rparr>) (localStorage s)\<rparr>)"

text \<open>The updater passed to \<^verbatim>\<open>setSolvedTerms\<close> when the guess is exact.\<close>

definition markSolved :: "GameState \<Rightarrow> GameState" where
  "markSolved s =
     (let prev = solvedTerms s in
      if List.member prev (entry_term (currentEntry s)) then s
      else
        let next = prev @ [entry_term (currentEntry s)]
        in s\<lparr>solvedTerms := next,
             localStorage := map_option (\<lambda>st. st\<lparr>stored_solved := Some next\<rparr>) (localStorage s)\<rparr>)"

definition handleSubmit :: "GameState \<Rightarrow> GameState" where
  "handleSubmit s =
     (let guess = trim (inputValue s) in
      if guess = [] then s\<lparr>feedback := Some \<lparr>tone = warn, feedback_text = EnterAWord\<rparr>\<rparr>
      else
        let normalizedGuess = normalizeForComparison guess in
        if normalizedGuess = []
        then s\<lparr>feedback := Some \<lparr>tone = warn, feedback_text = NothingToCompare\<rparr>\<rparr>
        else if list_ex (\<lambda>item. normalized item = normalizedGuess) (guesses s)
        then s\<lparr>feedback := Some \<lparr>tone = warn, feedback_text = AlreadyTried\<rparr>\<rparr>
        else
          let bd = scorePhonemes guess (answerProfile s);
              newGuess = \<lparr>guess_value = guess, normalized = normalizedGuess, breakdown = bd\<rparr>;
              s1 = s\<lparr>guesses := newGuess # guesses s, inputValue := []\<rparr>;
              s2 = recordGuess (overall bd = 100) s1;
              s3 = s2\<lparr>feedback := Some (formatFeedback (overall bd))\<rparr>
          in if overall bd = 100 then markSolved (s3\<lparr>status := cleared\<rparr>) else s3)"

section \<open>Reference notions\<close>

subsection \<open>Classic edit distance\<close>

text \<open>
  \<open>edits xs ys n\<close>: \<open>xs\<close> is turned into \<open>ys\<close> by a left-to-right script of kept
  elements, deletions, insertions and substitutions, of which \<open>n\<close> are not kept elements
  (each deletion, insertion and substitution costs 1).
\<close>

inductive edits :: "'a list \<Rightarrow> 'a list \<Rightarrow> nat \<Rightarrow> bool" where
  edits_Nil: "edits [] [] 0"
| edits_keep: "edits xs ys n \<Longrightarrow> edits (x # xs) (x # ys) n"
| edits_delete: "edits xs ys n \<Longrightarrow> edits (x # xs) ys (Suc n)"
| edits_insert: "edits xs ys n \<Longrightarrow> edits xs (y # ys) (Suc n)"
| edits_substitute: "edits xs ys n \<Longrightarrow> edits (x # xs) (y # ys) (Suc n)"

code_pred (modes: i \<Rightarrow> i \<Rightarrow> i \<Rightarrow> bool) edits .

text \<open>The textbook recursion that computes the least cost of such a script.\<close>

fun edit_distance :: "'a list \<Rightarrow> 'a list \<Rightarrow> nat" where
  "edit_distance [] ys = length ys"
| "edit_distance xs [] = length xs"
| "edit_distance (x # xs) (y # ys) =
     min (edit_distance xs (y # ys) + 1)
         (min (edit_distance (x # xs) ys + 1)
              (edit_distance xs ys + (if x = y then 0 else 1)))"

text \<open>
  Row \<open>i\<close> of the table of distances between the prefixes of \<open>a\<close> and \<open>b\<close>: the content
  of \<^verbatim>\<open>previousRow\<close> after \<open>i\<close> rounds of the outer loop.
\<close>

definition edit_row :: "'a list \<Rightarrow> 'a list \<Rightarrow> nat \<Rightarrow> nat list" where
  "edit_row a b i = map (\<lambda>j. edit_distance (take i a) (take j b)) [0 ..< length b + 1]"

subsection \<open>Unicode scalar values of a string\<close>

text \<open>
  The code point of one character yielded by the string iterator (\<^verbatim>\<open>codePointAt(0)\<close>);
  the iterator never yields an empty string.
\<close>

fun code_point :: "jsstring \<Rightarrow> nat" where
  "code_point [] = 0"
| "code_point [u] = unat u"
| "code_point (u # v # rest) =
     (if is_high_surrogate u \<and> is_low_surrogate v
      then 0x10000 + (unat u - 0xD800) * 0x400 + (unat v - 0xDC00)
      else unat u)"

definition scalar_values :: "jsstring \<Rightarrow> nat list" where
  "scalar_values s = map code_point (Array_from s)"

subsection \<open>The syllable decomposer and the profile builder as the specification words them\<close>

definition decompose :: "jsstring \<Rightarrow> (jsstring \<times> jsstring \<times> jsstring) option" where
  "decompose char =
     (let c = code_point char in
      if 0xAC00 \<le> c \<and> c < 0xAC00 + 11172 then
        let offset = c - 0xAC00 in
        Some (CHOSEONG ! (offset div 588),
              JUNGSEONG ! ((offset mod 588) div 28),
              JONGSEONG ! (offset mod 28))
      else None)"

definition is_ascii_letter_or_digit :: "code_unit \<Rightarrow> bool" where
  "is_ascii_letter_or_digit u =
     (let n = unat u in
      (0x61 \<le> n \<and> n \<le> 0x7A) \<or> (0x41 \<le> n \<and> n \<le> 0x5A) \<or> (0x30 \<le> n \<and> n \<le> 0x39))"

definition is_jamo :: "code_unit \<Rightarrow> bool" where
  "is_jamo u = (0x3131 \<le> unat u \<and> unat u \<le> 0x3163)"

text \<open>The lowercase ASCII fold: the letters A to Z become a to z, nothing else changes.\<close>

definition ascii_lower :: "code_unit \<Rightarrow> code_unit" where
  "ascii_lower u = (if 0x41 \<le> unat u \<and> unat u \<le> 0x5A then u + 0x20 else u)"

definition sanitize_spec :: "jsstring \<Rightarrow> jsstring" where
  "sanitize_spec v =
     filter (\<lambda>u. is_ascii_letter_or_digit u \<or> is_jamo u)
       (filter (\<lambda>u. \<not> is_whitespace u) (map ascii_lower v))"

text \<open>
  What one character appends to a channel: the glyphs \<open>pick\<close> selects when the character
  decomposes, the sanitized character otherwise.
\<close>

definition contribution ::
  "(jsstring \<times> jsstring \<times> jsstring \<Rightarrow> jsstring) \<Rightarrow> jsstring \<Rightarrow> jsstring" where
  "contribution pick char =
     (case decompose char of Some glyphs \<Rightarrow> pick glyphs | None \<Rightarrow> sanitize_spec char)"

text \<open>
  What a decomposing character appends to each channel: its three glyphs to the combined
  channel, one glyph to each of the others, the final glyph only when it is not empty.
\<close>

definition glyphs_combined :: "jsstring \<times> jsstring \<times> jsstring \<Rightarrow> jsstring" where
  "glyphs_combined g = (case g of (i, m, f) \<Rightarrow> i @ m @ f)"

definition glyphs_initial :: "jsstring \<times> jsstring \<times> jsstring \<Rightarrow> jsstring" where
  "glyphs_initial g = (case g of (i, m, f) \<Rightarrow> i)"

definition glyphs_medial :: "jsstring \<times> jsstring \<times> jsstring \<Rightarrow> jsstring" where
  "glyphs_medial g = (case g of (i, m, f) \<Rightarrow> m)"

definition glyphs_final :: "jsstring \<times> jsstring \<times> jsstring \<Rightarrow> jsstring" where
  "glyphs_final g = (case g of (i, m, f) \<Rightarrow> if f \<noteq> [] then f else [])"

definition profile_spec :: "jsstring \<Rightarrow> PhonemeProfile" where
  "profile_spec text =
     (let chars = Array_from text in
      \<lparr>combined = sanitize_spec (concat (map (contribution glyphs_combined) chars)),
       initial = sanitize_spec (concat (map (contribution glyphs_initial) chars)),
       medial = sanitize_spec (concat (map (contribution glyphs_medial) chars)),
       final = sanitize_spec (concat (map (contribution glyphs_final) chars))\<rparr>)"

text \<open>
  The two code units outside ASCII whose image under \<^verbatim>\<open>toLowerCase\<close> holds an ASCII
  letter: U+0130 (lowercased to \<open>i\<close> and U+0307) and U+212A (the Kelvin sign, lowercased
  to \<open>k\<close>), each replaced by that letter.
\<close>

definition lowered_exception :: "code_unit \<Rightarrow> code_unit" where
  "lowered_exception u =
     (if unat u = 0x130 then 0x69 else if unat u = 0x212A then 0x6B else u)"

text \<open>
  The alphabet of a profile channel: jamo glyphs, lowercase ASCII letters and ASCII digits.
\<close>

definition is_profile_unit :: "code_unit \<Rightarrow> bool" where
  "is_profile_unit u =
     (let n = unat u in
      (0x3131 \<le> n \<and> n \<le> 0x3163) \<or> (0x61 \<le> n \<and> n \<le> 0x7A) \<or> (0x30 \<le> n \<and> n \<le> 0x39))"

subsection \<open>Recomposition of a syllable from its glyphs\<close>

fun index_of :: "'a list \<Rightarrow> 'a \<Rightarrow> nat option" where
  "index_of [] x = None"
| "index_of (y # ys) x = (if y = x then Some 0 else map_option Suc (index_of ys x))"

definition recompose :: "jsstring \<Rightarrow> jsstring \<Rightarrow> jsstring \<Rightarrow> nat option" where
  "recompose i m f =
     (case (index_of CHOSEONG i, index_of JUNGSEONG m, index_of JONGSEONG f) of
        (Some initialIndex, Some medialIndex, Some finalIndex) \<Rightarrow>
          Some (0xAC00 + 588 * initialIndex + 28 * medialIndex + finalIndex)
      | _ \<Rightarrow> None)"

subsection \<open>The daily hash on unsigned 32-bit words\<close>

definition daily_hash32 :: "jsstring \<Rightarrow> 32 word" where
  "daily_hash32 seed = foldl (\<lambda>hash c. hash * 31 + ucast c) 0 seed"

subsection \<open>Validation of a submission\<close>

text \<open>
  A submission passes validation when none of the three rejections applies: the trimmed
  input is not empty, its normalized combined profile is not empty, and no guess recorded
  this round has that normalized profile.
\<close>

definition accepted :: "GameState \<Rightarrow> bool" where
  "accepted s =
     (trim (inputValue s) \<noteq> []
      \<and> normalizeForComparison (inputValue s) \<noteq> []
      \<and> \<not> list_ex (\<lambda>item. normalized item = normalizeForComparison (inputValue s))
            (guesses s))"

subsection \<open>Catalog entries of the examples\<close>

text \<open>An entry with the given term and empty category, hint and description.\<close>

definition word_entry :: "jsstring \<Rightarrow> WordEntry" where
  "word_entry t = \<lparr>entry_term = t, category = [], hint = [], description = []\<rparr>"

text \<open>
  The state when a round on \<open>entry\<close> starts (no guess, status playing, nothing solved,
  counters at zero) and \<open>input\<close> has been typed.
\<close>

definition round_start :: "WordEntry \<Rightarrow> jsstring \<Rightarrow> GameState" where
  "round_start entry input =
     \<lparr>currentEntry = entry, guesses = [], inputValue = input, status = playing,
      feedback = None, solvedTerms = [],
      stats = \<lparr>totalGuesses = 0, correctAnswers = 0, lastReset = []\<rparr>,
      localStorage = Some \<lparr>stored_solved = None, stored_stats = None\<rparr>\<rparr>"

section \<open>Rounding to binary64\<close>

subsection \<open>Binades\<close>

lemma bit_length_less: "n < 2 ^ bit_length n"
proof (induction n rule: bit_length.induct)
  case (1 n)
  show ?case
  proof (cases "n = 0")
    case True
    then show ?thesis by (simp add: bit_length.simps [of n])
  next
    case False
    with 1 have "n div 2 < 2 ^ bit_length (n div 2)" by simp
    then have "n < 2 * 2 ^ bit_length (n div 2)" by arith
    with False show ?thesis by (simp add: bit_length.simps [of n])
  qed
qed

lemma bit_length_1: "bit_length (Suc 0) = 1"
  by (simp add: bit_length.simps [of "Suc 0"] bit_length.simps [of 0])

lemma bit_length_le: "0 < n \<Longrightarrow> 2 ^ bit_length n \<le> 2 * n"
proof (induction n rule: bit_length.induct)
  case (1 n)
  then have n: "n \<noteq> 0" by simp
  show ?case
  proof (cases "n div 2 = 0")
    case True
    with n have "n = 1" by arith
    then show ?thesis
      by (simp add: bit_length_1)
  next
    case False
    with 1 n have "2 ^ bit_length (n div 2) \<le> 2 * (n div 2)" by simp
    then have "2 * 2 ^ bit_length (n div 2) \<le> 2 * n" by arith
    with n show ?thesis by (simp add: bit_length.simps [of n])
  qed
qed

lemma pow2_powr: "pow2 e = 2 powr real_of_int e"
proof (cases "0 \<le> e")
  case True
  then show ?thesis
    by (simp add: pow2_def powr_realpow [symmetric])
next
  case False
  define k where "k = nat (- e)"
  have e: "e = - int k" using False by (simp add: k_def)
  have "2 powr real_of_int e = 2 powr (- real k)"
    by (simp add: e)
  also have "\<dots> = 1 / 2 powr real k"
    by (simp add: powr_minus_divide)
  also have "\<dots> = 1 / 2 ^ k"
    by (simp add: powr_realpow)
  finally show ?thesis
    using False by (simp add: pow2_def k_def)
qed

lemma pow2_pos: "0 < pow2 e"
  by (simp add: pow2_powr)

lemma pow2_add: "pow2 (a + b) = pow2 a * pow2 b"
  by (simp add: pow2_powr powr_add)

lemma pow2_mono: "a \<le> b \<Longrightarrow> pow2 a \<le> pow2 b"
  by (simp add: pow2_powr)

lemma pow2_less_iff: "pow2 a < pow2 b \<longleftrightarrow> a < b"
  by (simp add: pow2_powr)

lemma pow2_nat: "pow2 (int k) = 2 ^ k"
  by (simp add: pow2_def)

lemma pow2_neg_nat: "pow2 (- int k) = 1 / 2 ^ k"
  by (simp add: pow2_powr powr_minus_divide powr_realpow)

lemma binade_bounds:
  assumes "0 < x"
  shows "pow2 (binade x) \<le> x" and "x < pow2 (binade x + 1)"
proof -
  have "pow2 (binade x) \<le> x \<and> x < pow2 (binade x + 1)"
  proof (cases "1 \<le> x")
    case True
    define n where "n = nat \<lfloor>x\<rfloor>"
    have fl: "1 \<le> \<lfloor>x\<rfloor>" using True by simp
    then have rn: "real n = of_int \<lfloor>x\<rfloor>" by (simp add: n_def)
    have n: "0 < n" "real n \<le> x" "x < real n + 1"
    proof -
      show "0 < n" using fl by (simp add: n_def)
      show "real n \<le> x" unfolding rn by (rule of_int_floor_le)
      show "x < real n + 1" unfolding rn by linarith
    qed
    from n(1) obtain k where k: "bit_length n = Suc k"
      using bit_length_less [of n] by (cases "bit_length n") simp_all
    have "(2::nat) ^ bit_length n \<le> 2 * n" using bit_length_le [OF n(1)] .
    then have "(2::nat) ^ k \<le> n" by (simp add: k)
    then have "real (2 ^ k) \<le> real n" by (rule of_nat_mono)
    then have A: "(2::real) ^ k \<le> real n" by simp
    have "n + 1 \<le> 2 ^ Suc k"
      using bit_length_less [of n] by (simp add: k)
    then have "real (n + 1) \<le> real (2 ^ Suc k)" by (rule of_nat_mono)
    then have B: "real n + 1 \<le> 2 ^ Suc k" by simp
    have C: "binade x = int k"
      using True by (simp add: binade_def n_def [symmetric] k)
    have "binade x + 1 = int (Suc k)" using C by simp
    then have P: "pow2 (binade x) = 2 ^ k" "pow2 (binade x + 1) = 2 ^ Suc k"
      using C by (simp_all only: pow2_nat)
    show ?thesis
      unfolding P using A B n(2,3) by linarith
  next
    case False
    define r where "r = nat (\<lceil>1 / x\<rceil> - 1)"
    have y: "1 < 1 / x" using False assms by simp
    then have c: "2 \<le> \<lceil>1 / x\<rceil>" by linarith
    have nn: "0 \<le> \<lceil>1 / x\<rceil> - 1" using c by linarith
    have "real r = of_int (\<lceil>1 / x\<rceil> - 1)"
      unfolding r_def using nn by (rule of_nat_nat)
    then have rr: "real r = of_int \<lceil>1 / x\<rceil> - 1" by simp
    have r: "0 < r" "real r < 1 / x" "1 / x \<le> real r + 1"
    proof -
      show "0 < r" unfolding r_def using c by linarith
      show "real r < 1 / x" unfolding rr by linarith
      show "1 / x \<le> real r + 1" unfolding rr by linarith
    qed
    from r(1) obtain k where k: "bit_length r = Suc k"
      using bit_length_less [of r] by (cases "bit_length r") simp_all
    have "(2::nat) ^ bit_length r \<le> 2 * r" using bit_length_le [OF r(1)] .
    then have "(2::nat) ^ k \<le> r" by (simp add: k)
    then have "real (2 ^ k) \<le> real r" by (rule of_nat_mono)
    then have lo: "(2::real) ^ k \<le> real r" by simp
    have "r + 1 \<le> 2 ^ Suc k"
      using bit_length_less [of r] by (simp add: k)
    then have "real (r + 1) \<le> real (2 ^ Suc k)" by (rule of_nat_mono)
    then have hi: "real r + 1 \<le> 2 ^ Suc k" by simp
    have b: "binade x = - int (Suc k)"
      using False by (simp add: binade_def r_def [symmetric] k)
    have "1 / x \<le> 2 ^ Suc k" using r(3) hi by linarith
    then have "1 \<le> 2 ^ Suc k * x"
      using assms by (simp add: field_simps)
    then have l: "1 / 2 ^ Suc k \<le> x"
      by (simp add: field_simps)
    have "2 ^ k < 1 / x" using r(2) lo by linarith
    then have "2 ^ k * x < 1"
      using assms by (simp add: field_simps)
    then have u: "x < 1 / 2 ^ k"
      by (simp add: field_simps)
    have "binade x + 1 = - int k" using b by simp
    then have P: "pow2 (binade x) = 1 / 2 ^ Suc k" "pow2 (binade x + 1) = 1 / 2 ^ k"
      using b by (simp_all only: pow2_neg_nat)
    show ?thesis
      unfolding P using l u by blast
  qed
  then show "pow2 (binade x) \<le> x" and "x < pow2 (binade x + 1)" by simp_all
qed

lemma binade_mono:
  assumes "0 < x" "x \<le> y"
  shows "binade x \<le> binade y"
proof -
  have "pow2 (binade x) < pow2 (binade y + 1)"
    using binade_bounds(1) [OF assms(1)] binade_bounds(2) [of y] assms by linarith
  then show ?thesis by (simp add: pow2_less_iff)
qed

lemma binade_less_1: "0 < x \<Longrightarrow> x < 1 \<Longrightarrow> binade x \<le> - 1"
proof -
  assume "0 < x" "x < 1"
  then have "pow2 (binade x) < pow2 0"
    using binade_bounds(1) [of x] by (simp add: pow2_def)
  then show ?thesis by (simp add: pow2_less_iff)
qed

subsection \<open>Rounding is monotone and accurate\<close>

lemma pow2_53: "pow2 (e + 53) = pow2 e * 2 ^ 53"
  using pow2_add [of e 53] pow2_nat [of 53] by simp

lemma pow2_52: "pow2 (e + 52) = pow2 e * 2 ^ 52"
  using pow2_add [of e 52] pow2_nat [of 52] by simp

lemma ulp_exponent_mono: "0 < x \<Longrightarrow> x \<le> y \<Longrightarrow> ulp_exponent x \<le> ulp_exponent y"
  using binade_mono [of x y] by (simp add: ulp_exponent_def)

lemma scaled_less:
  assumes "0 < x"
  shows "x / pow2 (ulp_exponent x) < 2 ^ 53"
proof -
  have "binade x + 1 \<le> ulp_exponent x + 53"
    by (simp add: ulp_exponent_def)
  then have "pow2 (binade x + 1) \<le> pow2 (ulp_exponent x) * 2 ^ 53"
    using pow2_mono [of "binade x + 1" "ulp_exponent x + 53"] by (simp add: pow2_53)
  with binade_bounds(2) [OF assms] have "x < pow2 (ulp_exponent x) * 2 ^ 53"
    by linarith
  then show ?thesis
    using pow2_pos [of "ulp_exponent x"] by (simp add: field_simps)
qed

lemma scaled_ge:
  assumes "0 < x" "- 1074 < ulp_exponent x"
  shows "2 ^ 52 \<le> x / pow2 (ulp_exponent x)"
proof -
  from assms(2) have "binade x = ulp_exponent x + 52"
    by (simp add: ulp_exponent_def max_def split: if_splits)
  then have "pow2 (binade x) = pow2 (ulp_exponent x) * 2 ^ 52"
    by (simp add: pow2_52)
  with binade_bounds(1) [OF assms(1)] have "pow2 (ulp_exponent x) * 2 ^ 52 \<le> x"
    by linarith
  then show ?thesis
    using pow2_pos [of "ulp_exponent x"] by (simp add: field_simps)
qed

lemma round_half_even_cases:
  "round_half_even y = \<lfloor>y\<rfloor> \<or> round_half_even y = \<lfloor>y\<rfloor> + 1"
  by (simp add: round_half_even_def Let_def)

lemma round_half_even_of_int: "round_half_even (of_int n) = n"
  by (simp add: round_half_even_def Let_def)

lemma round_half_even_error: "\<bar>of_int (round_half_even y) - y\<bar> \<le> 1 / 2"
proof -
  let ?r = "y - of_int \<lfloor>y\<rfloor>"
  have r: "0 \<le> ?r" "?r < 1"
    by linarith+
  consider "?r < 1 / 2" | "1 / 2 < ?r" | "?r = 1 / 2"
    by linarith
  then have "round_half_even y = \<lfloor>y\<rfloor> \<and> ?r \<le> 1 / 2
             \<or> round_half_even y = \<lfloor>y\<rfloor> + 1 \<and> 1 / 2 \<le> ?r"
  proof cases
    case 1
    then show ?thesis
      by (simp add: round_half_even_def Let_def)
  next
    case 2
    then show ?thesis
      by (simp add: round_half_even_def Let_def)
  next
    case 3
    then show ?thesis
      by (simp add: round_half_even_def Let_def)
  qed
  then show ?thesis
  proof
    assume "round_half_even y = \<lfloor>y\<rfloor> \<and> ?r \<le> 1 / 2"
    then show ?thesis using r by simp
  next
    assume a: "round_half_even y = \<lfloor>y\<rfloor> + 1 \<and> 1 / 2 \<le> ?r"
    then have "of_int (round_half_even y) - y = 1 - ?r" by simp
    then show ?thesis using a r by simp
  qed
qed

lemma round_half_even_mono:
  assumes "y \<le> z"
  shows "round_half_even y \<le> round_half_even z"
proof (cases "\<lfloor>y\<rfloor> = \<lfloor>z\<rfloor>")
  case False
  with assms have "\<lfloor>y\<rfloor> + 1 \<le> \<lfloor>z\<rfloor>"
    using floor_mono [OF assms] by linarith
  then show ?thesis
    using round_half_even_cases [of y] round_half_even_cases [of z] by linarith
next
  case True
  have "y - of_int \<lfloor>z\<rfloor> \<le> z - of_int \<lfloor>z\<rfloor>"
    using assms by simp
  then show ?thesis
    unfolding round_half_even_def Let_def True
    by (auto simp: not_less)
qed

lemma double_round_0: "double_round 0 = 0"
  by (simp add: double_round_def)

lemma double_round_pos:
  "0 < x \<Longrightarrow>
     double_round x = of_int (round_half_even (x / pow2 (ulp_exponent x))) * pow2 (ulp_exponent x)"
  by (simp add: double_round_def Let_def)

lemma round_half_even_nonneg: "0 \<le> y \<Longrightarrow> 0 \<le> round_half_even y"
  using round_half_even_mono [of 0 y] round_half_even_of_int [of 0] by simp

lemma double_round_nonneg: "0 \<le> x \<Longrightarrow> 0 \<le> double_round x"
proof (cases "x = 0")
  case True
  then show ?thesis by (simp add: double_round_0)
next
  case False
  assume "0 \<le> x"
  with False have x: "0 < x" by simp
  have "0 \<le> x / pow2 (ulp_exponent x)"
    using x pow2_pos [of "ulp_exponent x"] by simp
  then have "0 \<le> round_half_even (x / pow2 (ulp_exponent x))"
    by (rule round_half_even_nonneg)
  then show ?thesis
    using pow2_pos [of "ulp_exponent x"] by (simp add: double_round_pos [OF x])
qed

lemma double_round_nonpos: "x \<le> 0 \<Longrightarrow> double_round x \<le> 0"
proof (cases "x = 0")
  case True
  then show ?thesis by (simp add: double_round_0)
next
  case False
  assume "x \<le> 0"
  with False have x: "x < 0" by simp
  have "0 \<le> \<bar>x\<bar> / pow2 (ulp_exponent \<bar>x\<bar>)"
    using pow2_pos [of "ulp_exponent \<bar>x\<bar>"] by simp
  then have "0 \<le> round_half_even (\<bar>x\<bar> / pow2 (ulp_exponent \<bar>x\<bar>))"
    by (rule round_half_even_nonneg)
  then have "0 \<le> of_int (round_half_even (\<bar>x\<bar> / pow2 (ulp_exponent \<bar>x\<bar>)))
                 * pow2 (ulp_exponent \<bar>x\<bar>)"
    using pow2_pos [of "ulp_exponent \<bar>x\<bar>"] by simp
  then show ?thesis
    using x by (simp add: double_round_def Let_def mult.assoc)
qed

lemma double_round_mono_pos:
  assumes "0 < x" "x \<le> y"
  shows "double_round x \<le> double_round y"
proof -
  from assms have y: "0 < y" by simp
  let ?e = "ulp_exponent x" and ?f = "ulp_exponent y"
  have ef: "?e \<le> ?f" using assms by (rule ulp_exponent_mono)
  show ?thesis
  proof (cases "?e = ?f")
    case True
    have "x / pow2 ?f \<le> y / pow2 ?f"
      using assms(2) pow2_pos [of ?f] by (simp add: divide_right_mono)
    then have "round_half_even (x / pow2 ?f) \<le> round_half_even (y / pow2 ?f)"
      by (rule round_half_even_mono)
    then have "of_int (round_half_even (x / pow2 ?f)) * pow2 ?f
                 \<le> of_int (round_half_even (y / pow2 ?f)) * pow2 ?f"
      using pow2_pos [of ?f] by (simp add: mult_right_mono)
    then show ?thesis
      by (simp add: double_round_pos [OF assms(1)] double_round_pos [OF y] True)
  next
    case False
    with ef have lt: "?e + 1 \<le> ?f" by simp
    have "- 1074 \<le> ?e" by (simp add: ulp_exponent_def)
    with lt have "- 1074 < ?f" by simp
    from scaled_ge [OF y this] have "round_half_even (of_int (2 ^ 52)) \<le> round_half_even (y / pow2 ?f)"
      by (intro round_half_even_mono) simp
    then have "2 ^ 52 \<le> round_half_even (y / pow2 ?f)"
      by (simp only: round_half_even_of_int)
    then have "(2::real) ^ 52 \<le> of_int (round_half_even (y / pow2 ?f))"
      by (metis of_int_le_iff of_int_numeral of_int_power)
    then have lower: "2 ^ 52 * pow2 ?f \<le> double_round y"
      using pow2_pos [of ?f] by (simp add: double_round_pos [OF y] mult_right_mono)
    from scaled_less [OF assms(1)]
    have "round_half_even (x / pow2 ?e) \<le> round_half_even (of_int (2 ^ 53))"
      by (intro round_half_even_mono) simp
    then have "round_half_even (x / pow2 ?e) \<le> 2 ^ 53"
      by (simp only: round_half_even_of_int)
    then have "of_int (round_half_even (x / pow2 ?e)) \<le> (2::real) ^ 53"
      by (metis of_int_le_iff of_int_numeral of_int_power)
    then have upper: "double_round x \<le> 2 ^ 53 * pow2 ?e"
      using pow2_pos [of ?e] by (simp add: double_round_pos [OF assms(1)] mult_right_mono)
    have "pow2 (?e + 1) \<le> pow2 ?f" using lt by (rule pow2_mono)
    moreover have "pow2 (?e + 1) = pow2 ?e * 2"
      using pow2_add [of ?e 1] pow2_nat [of 1] by simp
    ultimately have "2 ^ 53 * pow2 ?e \<le> 2 ^ 52 * pow2 ?f" by simp
    with lower upper show ?thesis by linarith
  qed
qed

lemma double_round_mono:
  assumes "0 \<le> x" "x \<le> y"
  shows "double_round x \<le> double_round y"
proof (cases "x = 0")
  case True
  with assms double_round_nonneg [of y] show ?thesis by (simp add: double_round_0)
next
  case False
  with assms have "0 < x" by simp
  then show ?thesis using assms(2) by (rule double_round_mono_pos)
qed

lemma double_round_error_unit:
  assumes "0 \<le> x" "x < 1"
  shows "\<bar>double_round x - x\<bar> \<le> 1 / 2 ^ 54"
proof (cases "x = 0")
  case True
  then show ?thesis by (simp add: double_round_0)
next
  case False
  with assms have x: "0 < x" by simp
  let ?e = "ulp_exponent x"
  have "binade x - 52 \<le> - 53" using binade_less_1 [OF x assms(2)] by simp
  then have "?e \<le> - 53" by (simp add: ulp_exponent_def)
  then have "pow2 ?e \<le> pow2 (- 53)" by (rule pow2_mono)
  then have p: "pow2 ?e \<le> 1 / 2 ^ 53"
    using pow2_neg_nat [of 53] by simp
  have "double_round x - x
          = (of_int (round_half_even (x / pow2 ?e)) - x / pow2 ?e) * pow2 ?e"
    using pow2_pos [of ?e] by (simp add: double_round_pos [OF x] field_simps)
  then have "\<bar>double_round x - x\<bar>
          = \<bar>of_int (round_half_even (x / pow2 ?e)) - x / pow2 ?e\<bar> * pow2 ?e"
    using pow2_pos [of ?e] by (simp add: abs_mult)
  also have "\<dots> \<le> (1 / 2) * pow2 ?e"
    using round_half_even_error [of "x / pow2 ?e"] pow2_pos [of ?e]
    by (intro mult_right_mono) simp_all
  also have "\<dots> \<le> (1 / 2) * (1 / 2 ^ 53)"
    using p by simp
  finally show ?thesis by simp
qed

lemmas double_eval = double_round_def ulp_exponent_def binade_def pow2_def
  round_half_even_def Let_def bit_length.simps

lemma double_round_1: "double_round 1 = 1"
  by (simp add: double_eval)

lemma double_round_100: "double_round 100 = 100"
  by (simp add: double_eval)

lemma double_round_le_1: "x \<le> 1 \<Longrightarrow> double_round x \<le> 1"
proof (cases "0 \<le> x")
  case True
  assume "x \<le> 1"
  with True show ?thesis
    using double_round_mono [of x 1] by (simp add: double_round_1)
next
  case False
  then show ?thesis
    using double_round_nonpos [of x] by simp
qed

lemma double_round_error_le_1:
  assumes "0 \<le> x" "x \<le> 1"
  shows "\<bar>double_round x - x\<bar> \<le> 1 / 2 ^ 54"
proof (cases "x = 1")
  case True
  then show ?thesis by (simp add: double_round_1)
next
  case False
  with assms show ?thesis
    by (intro double_round_error_unit) simp_all
qed

section \<open>The edit distance and the two-row loop\<close>

subsection \<open>Edit distance\<close>

lemma edit_distance_Nil2 [simp]: "edit_distance xs [] = length xs"
  by (cases xs) simp_all

lemma edit_distance_same: "edit_distance xs xs = 0"
  by (induction xs) simp_all

lemma edit_distance_zero_iff: "edit_distance xs ys = 0 \<longleftrightarrow> xs = ys"
  by (induction xs ys rule: edit_distance.induct) auto

lemma edit_distance_sym: "edit_distance xs ys = edit_distance ys xs"
  by (induction xs ys rule: edit_distance.induct) (simp_all add: min.commute min.left_commute)

lemma edit_distance_Cons1: "edit_distance (x # xs) ys \<le> edit_distance xs ys + 1"
  by (cases ys) simp_all

lemma edit_distance_Cons2: "edit_distance xs (y # ys) \<le> edit_distance xs ys + 1"
  by (cases xs) simp_all

lemma edit_distance_Cons_Cons: "edit_distance (x # xs) (y # ys) \<le> edit_distance xs ys + (if x = y then 0 else 1)"
  by simp

lemma length_le_edit_distance: "length ys \<le> length xs + edit_distance xs ys"
  by (induction xs ys rule: edit_distance.induct) (auto simp: min_def)

lemma edit_distance_le_sum: "edit_distance xs ys \<le> length xs + length ys"
proof (induction xs ys rule: edit_distance.induct)
  case (3 x xs y ys)
  have "edit_distance (x # xs) (y # ys) \<le> edit_distance xs (y # ys) + 1" by simp
  with 3 show ?case by simp
qed simp_all

lemma edit_distance_triangle:
  "edit_distance xs zs \<le> edit_distance xs ys + edit_distance ys zs"
proof (induction "length xs + length ys + length zs" arbitrary: xs ys zs rule: less_induct)
  case less
  show ?case
  proof (cases xs)
    case Nil
    then show ?thesis using length_le_edit_distance [of zs ys] by simp
  next
    case xs: (Cons x xs')
    show ?thesis
    proof (cases zs)
      case Nil
      then show ?thesis
        using length_le_edit_distance [of xs ys] by (simp add: edit_distance_sym [of xs ys])
    next
      case zs: (Cons z zs')
      show ?thesis
      proof (cases ys)
        case Nil
        then show ?thesis using edit_distance_le_sum [of xs zs] by simp
      next
        case ys: (Cons y ys')
        define cxy :: nat where "cxy = (if x = y then 0 else 1)"
        define cyz :: nat where "cyz = (if y = z then 0 else 1)"
        define cxz :: nat where "cxz = (if x = z then 0 else 1)"
        have c: "cxz \<le> cxy + cyz"
          by (simp add: cxy_def cyz_def cxz_def)
        have g1: "edit_distance xs zs \<le> edit_distance xs' zs + 1"
          and g2: "edit_distance xs zs \<le> edit_distance xs zs' + 1"
          and g3: "edit_distance xs zs \<le> edit_distance xs' zs' + cxz"
          by (simp_all add: xs zs cxz_def)
        have h1: "edit_distance xs' zs \<le> edit_distance xs' ys + edit_distance ys zs"
          by (rule less) (simp add: xs)
        have h2: "edit_distance xs zs' \<le> edit_distance xs ys + edit_distance ys zs'"
          by (rule less) (simp add: zs)
        have h3: "edit_distance xs zs \<le> edit_distance xs ys' + edit_distance ys' zs"
          by (rule less) (simp add: ys)
        have h4: "edit_distance xs zs' \<le> edit_distance xs ys' + edit_distance ys' zs'"
          by (rule less) (simp add: ys zs)
        have h5: "edit_distance xs' zs \<le> edit_distance xs' ys' + edit_distance ys' zs"
          by (rule less) (simp add: xs ys)
        have h6: "edit_distance xs' zs' \<le> edit_distance xs' ys' + edit_distance ys' zs'"
          by (rule less) (simp add: xs ys zs)
        have A: "edit_distance xs ys = edit_distance xs' ys + 1
                 \<or> edit_distance xs ys = edit_distance xs ys' + 1
                 \<or> edit_distance xs ys = edit_distance xs' ys' + cxy"
          by (simp add: xs ys cxy_def min_def)
        have B: "edit_distance ys zs = edit_distance ys' zs + 1
                 \<or> edit_distance ys zs = edit_distance ys zs' + 1
                 \<or> edit_distance ys zs = edit_distance ys' zs' + cyz"
          by (simp add: ys zs cyz_def min_def)
        from A show ?thesis
        proof (elim disjE)
          assume "edit_distance xs ys = edit_distance xs' ys + 1"
          with g1 h1 show ?thesis by linarith
        next
          assume a: "edit_distance xs ys = edit_distance xs ys' + 1"
          from B show ?thesis
          proof (elim disjE)
            assume "edit_distance ys zs = edit_distance ys' zs + 1"
            with a h3 show ?thesis by linarith
          next
            assume "edit_distance ys zs = edit_distance ys zs' + 1"
            with g2 h2 show ?thesis by linarith
          next
            assume "edit_distance ys zs = edit_distance ys' zs' + cyz"
            with a g2 h4 show ?thesis by linarith
          qed
        next
          assume a: "edit_distance xs ys = edit_distance xs' ys' + cxy"
          from B show ?thesis
          proof (elim disjE)
            assume "edit_distance ys zs = edit_distance ys' zs + 1"
            with a g1 h5 show ?thesis by linarith
          next
            assume "edit_distance ys zs = edit_distance ys zs' + 1"
            with g2 h2 show ?thesis by linarith
          next
            assume "edit_distance ys zs = edit_distance ys' zs' + cyz"
            with a g3 h6 c show ?thesis by linarith
          qed
        qed
      qed
    qed
  qed
qed

subsection \<open>Scripts\<close>

lemma edits_Nil_left: "edits [] ys (length ys)"
  by (induction ys) (auto intro: edits.intros)

lemma edits_Nil_right: "edits xs [] (length xs)"
  by (induction xs) (auto intro: edits.intros)

lemma edits_edit_distance: "edits xs ys (edit_distance xs ys)"
proof (induction xs ys rule: edit_distance.induct)
  case (1 ys)
  show ?case by (simp add: edits_Nil_left)
next
  case (2 x xs)
  show ?case using edits_Nil_right [of "x # xs"] by simp
next
  case (3 x xs y ys)
  have d: "edits (x # xs) (y # ys) (edit_distance xs (y # ys) + 1)"
    using 3(1) by (auto intro: edits_delete)
  have i: "edits (x # xs) (y # ys) (edit_distance (x # xs) ys + 1)"
    using 3(2) by (auto intro: edits_insert)
  have s: "edits (x # xs) (y # ys) (edit_distance xs ys + (if x = y then 0 else 1))"
    using 3(3) by (auto intro: edits_keep edits_substitute)
  show ?case using d i s by (simp add: min_def)
qed

lemma edit_distance_le_edits: "edits xs ys n \<Longrightarrow> edit_distance xs ys \<le> n"
proof (induction rule: edits.induct)
  case edits_Nil
  show ?case by simp
next
  case (edits_keep xs ys n x)
  then show ?case using edit_distance_Cons_Cons [of x xs x ys] by simp
next
  case (edits_delete xs ys n x)
  then show ?case using edit_distance_Cons1 [of x xs ys] by simp
next
  case (edits_insert xs ys n y)
  then show ?case using edit_distance_Cons2 [of xs y ys] by simp
next
  case (edits_substitute xs ys n x y)
  then show ?case using edit_distance_Cons_Cons [of x xs y ys] by (simp split: if_splits)
qed

lemma edits_snoc_keep: "edits xs ys n \<Longrightarrow> edits (xs @ [x]) (ys @ [x]) n"
  by (induction rule: edits.induct) (auto intro: edits.intros)

lemma edits_snoc_delete: "edits xs ys n \<Longrightarrow> edits (xs @ [x]) ys (Suc n)"
  by (induction rule: edits.induct) (auto intro: edits.intros)

lemma edits_snoc_insert: "edits xs ys n \<Longrightarrow> edits xs (ys @ [y]) (Suc n)"
  by (induction rule: edits.induct) (auto intro: edits.intros)

lemma edits_snoc_substitute: "edits xs ys n \<Longrightarrow> edits (xs @ [x]) (ys @ [y]) (Suc n)"
  by (induction rule: edits.induct) (auto intro: edits.intros)

lemma edits_rev: "edits xs ys n \<Longrightarrow> edits (rev xs) (rev ys) n"
  by (induction rule: edits.induct)
     (auto intro: edits_Nil edits_snoc_keep edits_snoc_delete edits_snoc_insert edits_snoc_substitute)

lemma edit_distance_rev_le: "edit_distance (rev xs) (rev ys) \<le> edit_distance xs ys"
  by (rule edit_distance_le_edits [OF edits_rev [OF edits_edit_distance]])

lemma edit_distance_rev: "edit_distance (rev xs) (rev ys) = edit_distance xs ys"
  using edit_distance_rev_le [of xs ys] edit_distance_rev_le [of "rev xs" "rev ys"] by simp

lemma edit_distance_snoc:
  "edit_distance (xs @ [x]) (ys @ [y]) =
     min (edit_distance xs (ys @ [y]) + 1)
         (min (edit_distance (xs @ [x]) ys + 1)
              (edit_distance xs ys + (if x = y then 0 else 1)))"
proof -
  have "edit_distance (xs @ [x]) (ys @ [y]) = edit_distance (x # rev xs) (y # rev ys)"
    using edit_distance_rev [of "xs @ [x]" "ys @ [y]"] by simp
  also have "\<dots> = min (edit_distance (rev xs) (rev (ys @ [y])) + 1)
         (min (edit_distance (rev (xs @ [x])) (rev ys) + 1)
              (edit_distance (rev xs) (rev ys) + (if x = y then 0 else 1)))"
    by simp
  finally show ?thesis by (simp only: edit_distance_rev)
qed

subsection \<open>The loops of \<^verbatim>\<open>levenshteinDistance\<close>\<close>

lemma length_edit_row: "length (edit_row a b i) = length b + 1"
  by (simp add: edit_row_def)

lemma nth_edit_row:
  "j \<le> length b \<Longrightarrow> edit_row a b i ! j = edit_distance (take i a) (take j b)"
  unfolding edit_row_def by (simp add: nth_append less_Suc_eq_le del: upt_Suc)

lemma edit_row_0: "edit_row a b 0 = [0 ..< length b + 1]"
  by (rule nth_equalityI) (simp_all add: length_edit_row nth_edit_row less_Suc_eq_le nth_append del: upt_Suc)

lemma lev_copy_result:
  "length previousRow = length currentRow \<Longrightarrow> j \<le> length currentRow
   \<Longrightarrow> take j previousRow = take j currentRow
   \<Longrightarrow> lev_copy j previousRow currentRow = currentRow"
proof (induction j previousRow currentRow rule: lev_copy.induct)
  case (1 j previousRow currentRow)
  show ?case
  proof (cases "j < length currentRow")
    case True
    have "take (j + 1) (previousRow[j := currentRow ! j]) = take (j + 1) currentRow"
      using True "1.prems" by (simp add: take_Suc_conv_app_nth)
    with True "1.prems" "1.IH" show ?thesis
      by (simp add: lev_copy.simps [of j previousRow currentRow])
  next
    case False
    with "1.prems" show ?thesis
      by (subst lev_copy.simps) simp
  qed
qed

lemma lev_inner_result:
  "i < length a \<Longrightarrow> previousRow = edit_row a b i \<Longrightarrow> length currentRow = length b + 1
   \<Longrightarrow> j \<le> length b
   \<Longrightarrow> \<forall>k\<le>j. currentRow ! k = edit_distance (take (Suc i) a) (take k b)
   \<Longrightarrow> lev_inner a b i j previousRow currentRow = edit_row a b (Suc i)"
proof (induction a b i j previousRow currentRow rule: lev_inner.induct)
  case (1 a b i j previousRow currentRow)
  show ?case
  proof (cases "j < length b")
    case True
    let ?v = "min (currentRow ! j + 1)
                (min (previousRow ! (j + 1) + 1)
                     (previousRow ! j + (if a ! i = b ! j then 0 else 1)))"
    have ta: "take (Suc i) a = take i a @ [a ! i]"
      using "1.prems"(1) by (simp add: take_Suc_conv_app_nth)
    have tb: "take (Suc j) b = take j b @ [b ! j]"
      using True by (simp add: take_Suc_conv_app_nth)
    have cj: "currentRow ! j = edit_distance (take (Suc i) a) (take j b)"
      using "1.prems"(5) by simp
    have p1: "previousRow ! (j + 1) = edit_distance (take i a) (take (Suc j) b)"
      using True "1.prems"(2) by (simp add: nth_edit_row)
    have p0: "previousRow ! j = edit_distance (take i a) (take j b)"
      using True "1.prems"(2) by (simp add: nth_edit_row)
    have v: "?v = edit_distance (take (Suc i) a) (take (Suc j) b)"
      unfolding cj p1 p0 unfolding ta tb edit_distance_snoc
      by (simp add: min.commute min.left_commute)
    have inv: "\<forall>k\<le>j + 1. (currentRow[j + 1 := ?v]) ! k = edit_distance (take (Suc i) a) (take k b)"
    proof (intro allI impI)
      fix k assume k: "k \<le> j + 1"
      show "(currentRow[j + 1 := ?v]) ! k = edit_distance (take (Suc i) a) (take k b)"
      proof (cases "k = j + 1")
        case True
        then show ?thesis using \<open>j < length b\<close> "1.prems"(3) v by simp
      next
        case False
        with k have "k \<le> j" by simp
        with False "1.prems"(5) show ?thesis by simp
      qed
    qed
    have "lev_inner a b i (j + 1) previousRow (currentRow[j + 1 := ?v]) = edit_row a b (Suc i)"
      using True "1.prems" inv by (intro "1.IH" [OF True refl refl refl]) simp_all
    with True show ?thesis
      by (simp add: lev_inner.simps [of a b i j previousRow currentRow] Let_def)
  next
    case False
    with "1.prems" have j: "j = length b" by simp
    have "currentRow = edit_row a b (Suc i)"
      by (rule nth_equalityI)
         (use "1.prems" j in \<open>simp_all add: length_edit_row nth_edit_row less_Suc_eq_le\<close>)
    with False show ?thesis
      by (subst lev_inner.simps) simp
  qed
qed

lemma lev_outer_result:
  "i \<le> length a \<Longrightarrow> previousRow = edit_row a b i \<Longrightarrow> length currentRow = length b + 1
   \<Longrightarrow> lev_outer a b i previousRow currentRow = edit_row a b (length a)"
proof (induction a b i previousRow currentRow rule: lev_outer.induct)
  case (1 a b i previousRow currentRow)
  show ?case
  proof (cases "i < length a")
    case True
    let ?c0 = "currentRow[0 := i + 1]"
    let ?c1 = "lev_inner a b i 0 previousRow ?c0"
    let ?p1 = "lev_copy 0 previousRow ?c1"
    have c1: "?c1 = edit_row a b (Suc i)"
      using True "1.prems" by (intro lev_inner_result) simp_all
    have p1: "?p1 = edit_row a b (Suc i)"
      unfolding c1 using "1.prems" by (intro lev_copy_result) (simp_all add: length_edit_row)
    have "lev_outer a b (i + 1) ?p1 ?c1 = edit_row a b (length a)"
      using True p1 c1 by (intro "1.IH" [OF True refl refl refl]) (simp_all add: length_edit_row)
    with True show ?thesis
      by (simp add: lev_outer.simps [of a b i previousRow currentRow] Let_def)
  next
    case False
    with "1.prems" show ?thesis
      by (subst lev_outer.simps) simp
  qed
qed

lemma levenshtein_rows_edit_distance:
  "length slots = length b + 1 \<Longrightarrow> levenshtein_rows slots a b = edit_distance a b"
proof -
  assume len: "length slots = length b + 1"
  have "lev_outer a b 0 [0 ..< length b + 1] slots = edit_row a b (length a)"
    using len by (intro lev_outer_result) (simp_all add: edit_row_0)
  then have "lev_outer a b 0 [0 ..< length b + 1] slots ! length b = edit_distance a b"
    by (simp add: nth_edit_row)
  then show ?thesis
    by (simp add: levenshtein_rows_def edit_distance_same Let_def)
qed

lemma lev_rows_slots:
  "length slots = length b + 1 \<Longrightarrow> length slots' = length b + 1
   \<Longrightarrow> levenshtein_rows slots a b = levenshtein_rows slots' a b"
  by (simp add: levenshtein_rows_edit_distance)

lemma levenshteinDistance_edit_distance: "levenshteinDistance a b = edit_distance a b"
  by (simp add: levenshteinDistance_def levenshtein_rows_edit_distance)
subsection \<open>Strings without surrogate pairs\<close>

lemma Array_from_no_high:
  "\<forall>u\<in>set s. \<not> is_high_surrogate u \<Longrightarrow> Array_from s = map (\<lambda>u. [u]) s"
  by (induction s rule: Array_from.induct) simp_all

lemma scalar_values_no_high:
  "\<forall>u\<in>set s. \<not> is_high_surrogate u \<Longrightarrow> scalar_values s = map unat s"
  by (simp add: scalar_values_def Array_from_no_high comp_def)

lemma edit_distance_map_inj:
  "inj f \<Longrightarrow> edit_distance (map f xs) (map f ys) = edit_distance xs ys"
  by (induction xs ys rule: edit_distance.induct) (simp_all add: inj_eq)

lemma inj_unat_code_unit: "inj (unat :: code_unit \<Rightarrow> nat)"
  by (rule injI) (simp add: unsigned_word_eqI)

section \<open>The claims about the similarity scorer\<close>

lemma edit_distance_le_max: "edit_distance xs ys \<le> max (length xs) (length ys)"
proof (induction xs ys rule: edit_distance.induct)
  case (3 x xs y ys)
  have "edit_distance (x # xs) (y # ys) \<le> edit_distance xs ys + 1"
    using edit_distance_Cons_Cons [of x xs y ys]
    by (simp del: edit_distance.simps split: if_splits)
  with 3(3) show ?case
    by (simp del: edit_distance.simps)
qed simp_all

lemma edit_distance_replicate:
  "edit_distance (replicate (j + k) x) (replicate k x) = j"
proof -
  have "edit_distance (replicate (j + k) x) (replicate k x) \<le> j"
  proof (induction j)
    case 0
    show ?case by (simp add: edit_distance_same)
  next
    case (Suc j)
    then show ?case
      using edit_distance_Cons1 [of x "replicate (j + k) x" "replicate k x"] by simp
  qed
  moreover have "j \<le> edit_distance (replicate (j + k) x) (replicate k x)"
    using length_le_edit_distance [of "replicate (j + k) x" "replicate k x"]
    by (simp add: edit_distance_sym [of "replicate k x"])
  ultimately show ?thesis by simp
qed

lemma similarityScore_same: "similarityScore a a = 1"
  by (simp add: similarityScore_def levenshteinDistance_edit_distance edit_distance_same
        double_div_def double_sub_def double_round_0 double_round_1)

lemma similarityScore_range: "0 \<le> similarityScore a b" "similarityScore a b \<le> 1"
proof -
  show "0 \<le> similarityScore a b"
    by (simp add: similarityScore_def Let_def)
  have "double_sub 1 (double_div x y) \<le> 1" if "0 \<le> x" "0 \<le> y" for x y
  proof -
    have "0 \<le> double_round (x / y)"
      using that by (intro double_round_nonneg) simp
    then show ?thesis
      unfolding double_sub_def double_div_def by (intro double_round_le_1) simp
  qed
  then show "similarityScore a b \<le> 1"
    by (simp add: similarityScore_def Let_def)
qed

text \<open>
  The two roundings move the score by at most \<open>2^-53\<close> from the exact value of
  \<open>1 - distance / maxLength\<close>.
\<close>

lemma double_score_error:
  assumes "0 \<le> x" "x \<le> 1"
  shows "\<bar>max 0 (double_sub 1 (double_div x 1)) - max 0 (1 - x)\<bar> \<le> 1 / 2 ^ 53"
proof -
  let ?q = "double_round x"
  have q: "\<bar>?q - x\<bar> \<le> 1 / 2 ^ 54"
    using assms by (rule double_round_error_le_1)
  have q01: "0 \<le> ?q" "?q \<le> 1"
    using assms double_round_nonneg [of x] double_round_le_1 [of x] by simp_all
  then have t: "\<bar>double_round (1 - ?q) - (1 - ?q)\<bar> \<le> 1 / 2 ^ 54"
    by (intro double_round_error_le_1) simp_all
  have "\<bar>double_round (1 - ?q) - (1 - x)\<bar> \<le> 1 / 2 ^ 54 + 1 / 2 ^ 54"
    using q t by linarith
  then have "\<bar>double_round (1 - ?q) - (1 - x)\<bar> \<le> 1 / 2 ^ 53"
    by simp
  then show ?thesis
    unfolding double_sub_def double_div_def by (simp add: max_def abs_if split: if_splits)
qed

text \<open>
  C1. For all strings \<open>a\<close> and \<open>b\<close>, \<^verbatim>\<open>similarityScore(a, b)\<close> is 1 when both are empty,
  0 when exactly one is empty, and otherwise the maximum of 0 and
  \<^verbatim>\<open>1 - distance / maxLength\<close> as the code's arithmetic on Numbers computes it (the
  quotient of \<^verbatim>\<open>levenshteinDistance(a, b)\<close> by the larger length, then the difference
  from 1, each rounded to a binary64 value), which is within \<open>2^-53\<close> of the exact value
  of that expression; \<^verbatim>\<open>similarityScore(a, a)\<close> is 1 and the score always lies between
  0 and 1.
\<close>

theorem similarityScore_cases:
  "similarityScore a b =
     (if a = [] \<and> b = [] then 1
      else if a = [] \<or> b = [] then 0
      else max 0 (double_sub 1
             (double_div (real (levenshteinDistance a b)) (real (max (length a) (length b))))))
   \<and> \<bar>similarityScore a b -
        (if a = [] \<and> b = [] then 1
         else if a = [] \<or> b = [] then 0
         else max 0 (1 - real (levenshteinDistance a b) / real (max (length a) (length b))))\<bar>
       \<le> 1 / 2 ^ 53
   \<and> similarityScore a a = 1
   \<and> 0 \<le> similarityScore a b \<and> similarityScore a b \<le> 1"
proof -
  let ?d = "levenshteinDistance a b" and ?m = "max (length a) (length b)"
  have shape: "similarityScore a b =
     (if a = [] \<and> b = [] then 1
      else if a = [] \<or> b = [] then 0
      else max 0 (double_sub 1 (double_div (real ?d) (real ?m))))"
    by (simp add: similarityScore_def)
  have close: "\<bar>similarityScore a b -
        (if a = [] \<and> b = [] then 1
         else if a = [] \<or> b = [] then 0
         else max 0 (1 - real ?d / real ?m))\<bar> \<le> 1 / 2 ^ 53"
  proof (cases "a = [] \<or> b = []")
    case True
    then show ?thesis by (auto simp: shape)
  next
    case False
    then have m: "0 < ?m" by (auto simp: max_def)
    have "?d \<le> ?m"
      by (simp only: levenshteinDistance_edit_distance edit_distance_le_max)
    then have x: "0 \<le> real ?d / real ?m" "real ?d / real ?m \<le> 1"
      using m by simp_all
    have "double_div (real ?d) (real ?m) = double_div (real ?d / real ?m) 1"
      by (simp add: double_div_def)
    with double_score_error [OF x] False show ?thesis
      by (simp add: shape)
  qed
  from shape close similarityScore_same [of a] similarityScore_range [of a b]
  show ?thesis by blast
qed

theorem similarityScore_cases_witness:
  "similarityScore [0x61, 0x62, 0x63] [0x78, 0x79, 0x63] = 6004799503160662 / 2 ^ 54
   \<and> similarityScore [0x61, 0x62, 0x63] [0x61, 0x78, 0x63, 0x64] = 1 / 2
   \<and> similarityScore [] [0x78] = 0 \<and> similarityScore [] [] = 1
   \<and> similarityScore [0x61, 0x62, 0x63] [0x61, 0x62, 0x63] = 1"
proof -
  have r: "double_sub 1 (double_div 2 3) = 6004799503160662 / 2 ^ 54"
    "double_sub 1 (double_div 2 4) = 1 / 2"
    by (simp_all add: double_sub_def double_div_def double_eval)
  from similarityScore_cases [of "[0x61, 0x62, 0x63]" "[0x78, 0x79, 0x63]"]
    similarityScore_cases [of "[0x61, 0x62, 0x63]" "[0x61, 0x78, 0x63, 0x64]"]
    similarityScore_cases [of "[]" "[0x78]"] similarityScore_cases [of "[]" "[]"]
  show ?thesis
    by (simp add: levenshteinDistance_edit_distance r)
qed

text \<open>
  C2, as the claim states it, fails: the loops of \<^verbatim>\<open>levenshteinDistance\<close> index UTF-16
  code units. The one-character string U+1F600 (the surrogate pair D83D DE00) is at
  distance 2 from the string \<open>x\<close>, while the two sequences of scalar values, each of
  length one, are at distance 1.
\<close>

theorem levenshteinDistance_scalar_counterexample:
  "levenshteinDistance [0xD83D, 0xDE00] [0x78] = 2
   \<and> edit_distance (scalar_values [0xD83D, 0xDE00]) (scalar_values [0x78]) = 1"
  by (simp add: levenshteinDistance_edit_distance scalar_values_def
        is_high_surrogate_def is_low_surrogate_def)

text \<open>
  C2, amended. For all strings \<open>a\<close>, \<open>b\<close> and \<open>c\<close>, of any lengths,
  \<^verbatim>\<open>levenshteinDistance(a, b)\<close> is the classic edit distance between \<open>a\<close> and \<open>b\<close> as
  sequences of UTF-16 code units: it is the cost of some script of insertions, deletions
  and substitutions and no script costs less; it is 0 exactly when \<open>a = b\<close>, it is
  symmetric and it satisfies the triangle inequality. When neither string holds a high
  surrogate it is also the edit distance between the sequences of scalar values.
\<close>

theorem levenshteinDistance_classic:
  "levenshteinDistance a b = edit_distance a b
   \<and> edits a b (levenshteinDistance a b)
   \<and> (\<forall>n. edits a b n \<longrightarrow> levenshteinDistance a b \<le> n)
   \<and> (levenshteinDistance a b = 0 \<longleftrightarrow> a = b)
   \<and> levenshteinDistance a b = levenshteinDistance b a
   \<and> levenshteinDistance a c \<le> levenshteinDistance a b + levenshteinDistance b c
   \<and> ((\<forall>u\<in>set a \<union> set b. \<not> is_high_surrogate u) \<longrightarrow>
        levenshteinDistance a b = edit_distance (scalar_values a) (scalar_values b))"
proof -
  have scalar: "edit_distance (scalar_values a) (scalar_values b) = edit_distance a b"
    if "\<forall>u\<in>set a \<union> set b. \<not> is_high_surrogate u"
  proof -
    from that have "scalar_values a = map unat a" and "scalar_values b = map unat b"
      by (simp_all add: scalar_values_no_high)
    then show ?thesis
      by (simp add: edit_distance_map_inj [OF inj_unat_code_unit])
  qed
  show ?thesis
    unfolding levenshteinDistance_edit_distance
    using edits_edit_distance [of a b] edit_distance_le_edits [of a b]
      edit_distance_zero_iff [of a b] edit_distance_sym [of a b]
      edit_distance_triangle [of a c b] scalar
    by auto
qed

theorem levenshteinDistance_classic_witness:
  "edits [0x61, 0x62] [0x62 :: code_unit] 1
   \<and> \<not> is_high_surrogate 0x61 \<and> \<not> is_high_surrogate 0x62
   \<and> levenshteinDistance [0x61, 0x62] [0x62] = 1
   \<and> edit_distance (scalar_values [0x61, 0x62]) (scalar_values [0x62]) = 1"
proof -
  have "edits [0x62] [0x62 :: code_unit] 0"
    by (rule edits_keep [OF edits_Nil])
  then have "edits [0x61, 0x62] [0x62 :: code_unit] (Suc 0)"
    by (rule edits_delete)
  then have e: "edits [0x61, 0x62] [0x62 :: code_unit] 1"
    by simp
  have h: "\<forall>u\<in>set [0x61, 0x62] \<union> set [0x62]. \<not> is_high_surrogate (u :: code_unit)"
    by (simp add: is_high_surrogate_def)
  have d: "edit_distance [0x61, 0x62] [0x62 :: code_unit] = 1"
    by simp
  from levenshteinDistance_classic [of "[0x61, 0x62]" "[0x62]" "[]"] e h d
  show ?thesis by simp
qed

section \<open>The syllable decomposer\<close>

subsection \<open>Characters yielded by the string iterator\<close>

lemma Array_from_chars:
  "char \<in> set (Array_from text) \<Longrightarrow>
     (\<exists>u. char = [u]) \<or> (\<exists>h l. char = [h, l] \<and> is_high_surrogate h \<and> is_low_surrogate l)"
  by (induction "text" rule: Array_from.induct) (auto split: if_splits)

lemma concat_Array_from: "concat (Array_from text) = text"
  by (induction "text" rule: Array_from.induct) simp_all

lemma Array_from_single: "Array_from [u] = [[u]]"
  by simp

lemma Array_from_pair:
  "is_high_surrogate h \<Longrightarrow> is_low_surrogate l \<Longrightarrow> Array_from [h, l] = [[h, l]]"
  by simp

lemma high_surrogate_not_syllable: "is_high_surrogate h \<Longrightarrow> \<not> isHangulSyllable (unat h)"
  by (simp add: is_high_surrogate_def isHangulSyllable_def HANGUL_LAST_def)

subsection \<open>Indices and tables\<close>

lemma table_lengths:
  "length CHOSEONG = 19" "length JUNGSEONG = 21" "length JONGSEONG = 28"
  by (simp_all add: CHOSEONG_def JUNGSEONG_def JONGSEONG_def)

lemma CYCLE_588: "CYCLE = 588"
  by (simp add: CYCLE_def VOWEL_COUNT_def FINAL_CONSONANT_COUNT_def)

lemma syllable_index_bounds:
  assumes "isHangulSyllable c"
  shows "(c - HANGUL_BASE) div CYCLE < 19"
    and "((c - HANGUL_BASE) mod CYCLE) div FINAL_CONSONANT_COUNT < 21"
    and "(c - HANGUL_BASE) mod FINAL_CONSONANT_COUNT < 28"
proof -
  from assms have "c - HANGUL_BASE < 19 * 588"
    unfolding isHangulSyllable_def HANGUL_BASE_def HANGUL_LAST_def by arith
  then show "(c - HANGUL_BASE) div CYCLE < 19"
    by (simp add: CYCLE_588 less_mult_imp_div_less)
  have "(c - HANGUL_BASE) mod 588 < 21 * 28"
    by simp
  then show "((c - HANGUL_BASE) mod CYCLE) div FINAL_CONSONANT_COUNT < 21"
    unfolding CYCLE_588 FINAL_CONSONANT_COUNT_def by (rule less_mult_imp_div_less)
  show "(c - HANGUL_BASE) mod FINAL_CONSONANT_COUNT < 28"
    by (simp add: FINAL_CONSONANT_COUNT_def)
qed

lemma disassembleHangul_char_syllable:
  assumes "isHangulSyllable (unat u)"
  shows "disassembleHangul_char [u] =
           CHOSEONG ! ((unat u - HANGUL_BASE) div CYCLE)
           @ JUNGSEONG ! (((unat u - HANGUL_BASE) mod CYCLE) div FINAL_CONSONANT_COUNT)
           @ JONGSEONG ! ((unat u - HANGUL_BASE) mod FINAL_CONSONANT_COUNT)"
  using assms syllable_index_bounds [OF assms]
  by (simp add: disassembleHangul_char_def charCodeAt_def array_get_def to_string_def
        table_lengths Let_def)

lemma disassembleHangul_char_other:
  "char \<in> set (Array_from text) \<Longrightarrow> \<not> isHangulSyllable (code_point char)
   \<Longrightarrow> disassembleHangul_char char = char"
  by (auto dest!: Array_from_chars
        simp: disassembleHangul_char_def charCodeAt_def high_surrogate_not_syllable)

lemma disassembleHangul_unchanged:
  "\<forall>u\<in>set text. \<not> isHangulSyllable (unat u) \<Longrightarrow> disassembleHangul text = text"
proof -
  assume no: "\<forall>u\<in>set text. \<not> isHangulSyllable (unat u)"
  then have "map disassembleHangul_char (Array_from text) = Array_from text"
    by (induction "text" rule: Array_from.induct)
       (simp_all add: disassembleHangul_char_def charCodeAt_def)
  then show ?thesis
    by (simp add: disassembleHangul_def concat_Array_from)
qed

lemma disassembleHangul_of_char:
  "char \<in> set (Array_from text) \<Longrightarrow> disassembleHangul char = disassembleHangul_char char"
  by (auto dest!: Array_from_chars simp: disassembleHangul_def)

lemma disassembleHangul_single: "disassembleHangul [u] = disassembleHangul_char [u]"
  by (simp add: disassembleHangul_def)

lemma code_point_pair:
  "is_high_surrogate h \<Longrightarrow> is_low_surrogate l \<Longrightarrow> \<not> isHangulSyllable (code_point [h, l])"
  by (simp add: isHangulSyllable_def HANGUL_LAST_def)

text \<open>
  C3. The tables hold 19 initial, 21 medial and 28 final glyphs, the final glyph of
  index 0 being the empty string, and the block of syllables is the 11172 code points
  from AC00 to D7A3. For every character \<open>char\<close> of any text: when its code point lies in
  the block, with \<open>offset\<close> the code point minus AC00, the three indices
  \<open>offset div 588\<close>, \<open>offset mod 588 div 28\<close> and \<open>offset mod 28\<close> lie within the tables and
  \<^verbatim>\<open>disassembleHangul\<close> yields the three glyphs at these indices; every other character is
  returned unchanged. The function treats a text character by character, and no table
  read is out of range, so it returns a string for every input.
\<close>

theorem disassembleHangul_decomposition:
  "length CHOSEONG = 19 \<and> length JUNGSEONG = 21 \<and> length JONGSEONG = 28
   \<and> JONGSEONG ! 0 = []
   \<and> HANGUL_BASE = 0xAC00 \<and> HANGUL_LAST = 0xD7A3 \<and> HANGUL_LAST + 1 - HANGUL_BASE = 11172
   \<and> (char \<in> set (Array_from text) \<longrightarrow>
        (if 0xAC00 \<le> code_point char \<and> code_point char \<le> 0xD7A3
         then (let offset = code_point char - 0xAC00 in
                 offset div 588 < 19 \<and> offset mod 588 div 28 < 21 \<and> offset mod 28 < 28
                 \<and> disassembleHangul char =
                     CHOSEONG ! (offset div 588) @ JUNGSEONG ! (offset mod 588 div 28)
                     @ JONGSEONG ! (offset mod 28))
         else disassembleHangul char = char))
   \<and> disassembleHangul text = concat (map disassembleHangul (Array_from text))"
proof -
  have tables: "length CHOSEONG = 19 \<and> length JUNGSEONG = 21 \<and> length JONGSEONG = 28
                \<and> JONGSEONG ! 0 = []"
    by (simp add: table_lengths) (simp add: JONGSEONG_def)
  have block: "HANGUL_BASE = 0xAC00 \<and> HANGUL_LAST = 0xD7A3
               \<and> HANGUL_LAST + 1 - HANGUL_BASE = 11172"
    by (simp add: HANGUL_BASE_def HANGUL_LAST_def)
  have chars: "if 0xAC00 \<le> code_point char \<and> code_point char \<le> 0xD7A3
         then (let offset = code_point char - 0xAC00 in
                 offset div 588 < 19 \<and> offset mod 588 div 28 < 21 \<and> offset mod 28 < 28
                 \<and> disassembleHangul char =
                     CHOSEONG ! (offset div 588) @ JUNGSEONG ! (offset mod 588 div 28)
                     @ JONGSEONG ! (offset mod 28))
         else disassembleHangul char = char"
    if mem: "char \<in> set (Array_from text)"
  proof (cases "isHangulSyllable (code_point char)")
    case True
    with mem obtain u where u: "char = [u]"
      using Array_from_chars [OF mem] code_point_pair by auto
    with True have syl: "isHangulSyllable (unat u)" by simp
    from syllable_index_bounds [OF syl] disassembleHangul_char_syllable [OF syl] syl
    show ?thesis
      unfolding u disassembleHangul_single
      by (simp add: Let_def CYCLE_588 FINAL_CONSONANT_COUNT_def HANGUL_BASE_def
            HANGUL_LAST_def isHangulSyllable_def)
  next
    case False
    then have "disassembleHangul char = char"
      using disassembleHangul_char_other [OF mem] disassembleHangul_of_char [OF mem] by simp
    with False show ?thesis
      by (auto simp: isHangulSyllable_def HANGUL_BASE_def HANGUL_LAST_def)
  qed
  have whole: "disassembleHangul text = concat (map disassembleHangul (Array_from text))"
    using disassembleHangul_of_char [of _ "text"]
    by (simp add: disassembleHangul_def [of "text"] cong: map_cong)
  from tables block chars whole show ?thesis by blast
qed

theorem disassembleHangul_decomposition_witness:
  "disassembleHangul [0xD55C] = [0x314E, 0x314F, 0x3134]
   \<and> disassembleHangul [0x41] = [0x41]"
proof -
  have m1: "[0xD55C] \<in> set (Array_from [0xD55C, 0x41])"
    and m2: "[0x41] \<in> set (Array_from [0xD55C, 0x41])"
    by (simp_all add: is_high_surrogate_def)
  from disassembleHangul_decomposition [of "[0xD55C]" "[0xD55C, 0x41]"] m1
  have "disassembleHangul [0xD55C] = [0x314E, 0x314F, 0x3134]"
    by (simp add: CHOSEONG_def JUNGSEONG_def JONGSEONG_def)
  moreover from disassembleHangul_decomposition [of "[0x41]" "[0xD55C, 0x41]"] m2
  have "disassembleHangul [0x41] = [0x41]"
    by simp
  ultimately show ?thesis by simp
qed

subsection \<open>Round trip\<close>

lemma index_of_nth:
  "distinct xs \<Longrightarrow> k < length xs \<Longrightarrow> index_of xs (xs ! k) = Some k"
proof (induction xs arbitrary: k)
  case Nil
  then show ?case by simp
next
  case (Cons x xs)
  show ?case
  proof (cases k)
    case 0
    then show ?thesis by simp
  next
    case (Suc j)
    with Cons.prems have "xs ! j \<in> set xs" by simp
    with Cons.prems have "x \<noteq> xs ! j" by auto
    with Cons Suc show ?thesis by simp
  qed
qed

lemma distinct_tables: "distinct CHOSEONG" "distinct JUNGSEONG" "distinct JONGSEONG"
  by (simp_all add: CHOSEONG_def JUNGSEONG_def JONGSEONG_def)

lemma sanitizeSequence_Nil: "sanitizeSequence [] = []"
  by (simp add: sanitizeSequence_def toLowerCase_def)

lemma sanitizeSequence_jamo: "is_jamo u \<Longrightarrow> sanitizeSequence [u] = [u]"
  unfolding is_jamo_def sanitizeSequence_def toLowerCase_def toLowerCase_unit_def
    is_whitespace_def is_word_character_def Let_def
  by (simp add: not_le)

lemma jamo_tables:
  "\<forall>g\<in>set CHOSEONG. \<exists>u. g = [u] \<and> is_jamo u"
  "\<forall>g\<in>set JUNGSEONG. \<exists>u. g = [u] \<and> is_jamo u"
  "\<forall>g\<in>set JONGSEONG. g = [] \<or> (\<exists>u. g = [u] \<and> is_jamo u)"
  by (simp_all add: CHOSEONG_def JUNGSEONG_def JONGSEONG_def is_jamo_def)

lemma sanitizeSequence_glyph:
  "k < 19 \<Longrightarrow> sanitizeSequence (CHOSEONG ! k) = CHOSEONG ! k"
  "k < 21 \<Longrightarrow> sanitizeSequence (JUNGSEONG ! k) = JUNGSEONG ! k"
  "k < 28 \<Longrightarrow> sanitizeSequence (JONGSEONG ! k) = JONGSEONG ! k"
proof -
  show "sanitizeSequence (CHOSEONG ! k) = CHOSEONG ! k" if "k < 19"
  proof -
    from that have "CHOSEONG ! k \<in> set CHOSEONG" by (simp add: table_lengths)
    with jamo_tables(1) obtain u where "CHOSEONG ! k = [u]" "is_jamo u" by blast
    then show ?thesis by (simp add: sanitizeSequence_jamo)
  qed
  show "sanitizeSequence (JUNGSEONG ! k) = JUNGSEONG ! k" if "k < 21"
  proof -
    from that have "JUNGSEONG ! k \<in> set JUNGSEONG" by (simp add: table_lengths)
    with jamo_tables(2) obtain u where "JUNGSEONG ! k = [u]" "is_jamo u" by blast
    then show ?thesis by (simp add: sanitizeSequence_jamo)
  qed
  show "sanitizeSequence (JONGSEONG ! k) = JONGSEONG ! k" if "k < 28"
  proof -
    from that have "JONGSEONG ! k \<in> set JONGSEONG" by (simp add: table_lengths)
    with jamo_tables(3) consider "JONGSEONG ! k = []"
      | u where "JONGSEONG ! k = [u]" "is_jamo u" by blast
    then show ?thesis
      by cases (simp_all add: sanitizeSequence_jamo sanitizeSequence_Nil)
  qed
qed

lemma profile_step_syllable:
  assumes "isHangulSyllable (unat u)"
  shows "profile_step acc [u] =
     \<lparr>combined = combined acc @ CHOSEONG ! ((unat u - HANGUL_BASE) div CYCLE)
         @ JUNGSEONG ! (((unat u - HANGUL_BASE) mod CYCLE) div FINAL_CONSONANT_COUNT)
         @ JONGSEONG ! ((unat u - HANGUL_BASE) mod FINAL_CONSONANT_COUNT),
      initial = initial acc @ CHOSEONG ! ((unat u - HANGUL_BASE) div CYCLE),
      medial = medial acc
         @ JUNGSEONG ! (((unat u - HANGUL_BASE) mod CYCLE) div FINAL_CONSONANT_COUNT),
      final = final acc @ JONGSEONG ! ((unat u - HANGUL_BASE) mod FINAL_CONSONANT_COUNT)\<rparr>"
  using assms syllable_index_bounds [OF assms]
  by (simp add: profile_step_def charCodeAt_def array_get_def to_string_def truthy_def
        table_lengths Let_def)

lemma recompose_offset:
  fixes offset :: nat
  shows "588 * (offset div 588) + 28 * (offset mod 588 div 28) + offset mod 28 = offset"
proof -
  have "offset mod 588 mod 28 = offset mod 28"
    by (simp add: mod_mod_cancel)
  then have "28 * (offset mod 588 div 28) + offset mod 28 = offset mod 588"
    by (metis mult_div_mod_eq)
  then show ?thesis
    using mult_div_mod_eq [of 588 offset] by linarith
qed

text \<open>
  C4. For every code unit \<open>u\<close> in the block of the 11172 syllables, the three glyphs that
  \<^verbatim>\<open>disassembleHangul\<close> concatenates and that \<^verbatim>\<open>createPhonemeProfile\<close> returns as its
  initial, medial and final channels are found in their tables at indices from which
  \<open>0xAC00 + 588 * initialIndex + 28 * medialIndex + finalIndex\<close> is the code unit again.
\<close>

theorem syllable_roundtrip:
  "0xAC00 \<le> unat u \<and> unat u \<le> 0xD7A3 \<longrightarrow>
     (let offset = unat u - HANGUL_BASE;
          i = CHOSEONG ! (offset div CYCLE);
          m = JUNGSEONG ! (offset mod CYCLE div FINAL_CONSONANT_COUNT);
          f = JONGSEONG ! (offset mod FINAL_CONSONANT_COUNT)
      in disassembleHangul [u] = i @ m @ f
         \<and> initial (createPhonemeProfile [u]) = i
         \<and> medial (createPhonemeProfile [u]) = m
         \<and> final (createPhonemeProfile [u]) = f
         \<and> recompose i m f = Some (unat u))"
proof
  assume "0xAC00 \<le> unat u \<and> unat u \<le> 0xD7A3"
  then have syl: "isHangulSyllable (unat u)"
    by (simp add: isHangulSyllable_def HANGUL_BASE_def HANGUL_LAST_def)
  note b = syllable_index_bounds [OF syl]
  have d: "disassembleHangul [u] =
           CHOSEONG ! ((unat u - HANGUL_BASE) div CYCLE)
           @ JUNGSEONG ! (((unat u - HANGUL_BASE) mod CYCLE) div FINAL_CONSONANT_COUNT)
           @ JONGSEONG ! ((unat u - HANGUL_BASE) mod FINAL_CONSONANT_COUNT)"
    using disassembleHangul_char_syllable [OF syl] by (simp add: disassembleHangul_def)
  have p: "initial (createPhonemeProfile [u]) = CHOSEONG ! ((unat u - HANGUL_BASE) div CYCLE)"
    "medial (createPhonemeProfile [u]) =
       JUNGSEONG ! (((unat u - HANGUL_BASE) mod CYCLE) div FINAL_CONSONANT_COUNT)"
    "final (createPhonemeProfile [u]) =
       JONGSEONG ! ((unat u - HANGUL_BASE) mod FINAL_CONSONANT_COUNT)"
    using b by (simp_all add: createPhonemeProfile_def profile_step_syllable [OF syl]
        sanitizeSequence_glyph)
  have "unat u - HANGUL_BASE + 0xAC00 = unat u"
    using syl by (simp add: isHangulSyllable_def HANGUL_BASE_def)
  then have r: "recompose (CHOSEONG ! ((unat u - HANGUL_BASE) div CYCLE))
        (JUNGSEONG ! (((unat u - HANGUL_BASE) mod CYCLE) div FINAL_CONSONANT_COUNT))
        (JONGSEONG ! ((unat u - HANGUL_BASE) mod FINAL_CONSONANT_COUNT)) = Some (unat u)"
    using b recompose_offset [of "unat u - HANGUL_BASE"]
    by (simp add: recompose_def index_of_nth distinct_tables table_lengths CYCLE_588
          FINAL_CONSONANT_COUNT_def)
  from d p r show "let offset = unat u - HANGUL_BASE;
          i = CHOSEONG ! (offset div CYCLE);
          m = JUNGSEONG ! (offset mod CYCLE div FINAL_CONSONANT_COUNT);
          f = JONGSEONG ! (offset mod FINAL_CONSONANT_COUNT)
      in disassembleHangul [u] = i @ m @ f
         \<and> initial (createPhonemeProfile [u]) = i
         \<and> medial (createPhonemeProfile [u]) = m
         \<and> final (createPhonemeProfile [u]) = f
         \<and> recompose i m f = Some (unat u)"
    by (simp add: Let_def)
qed

theorem syllable_roundtrip_witness:
  "disassembleHangul [0xD55C] = [0x314E] @ [0x314F] @ [0x3134]
   \<and> initial (createPhonemeProfile [0xD55C]) = [0x314E]
   \<and> medial (createPhonemeProfile [0xD55C]) = [0x314F]
   \<and> final (createPhonemeProfile [0xD55C]) = [0x3134]
   \<and> recompose [0x314E] [0x314F] [0x3134] = Some 0xD55C"
  using syllable_roundtrip [of "0xD55C"]
  by (simp add: Let_def HANGUL_BASE_def CYCLE_588 FINAL_CONSONANT_COUNT_def
        CHOSEONG_def JUNGSEONG_def JONGSEONG_def)

section \<open>Entry selection\<close>

subsection \<open>The daily entry\<close>

lemma to_uint32_less: "to_uint32 x < 4294967296"
  by (simp add: to_uint32_def)

lemma word_of_nat_to_uint32: "(word_of_nat (to_uint32 x) :: 32 word) = word_of_nat x"
  by (simp add: to_uint32_def word_of_nat_eq_iff take_bit_eq_mod)

lemma daily_hash_loop_word:
  "hash < 2 ^ 32 \<Longrightarrow>
   daily_hash_loop seed i hash
     = unat (foldl (\<lambda>h c. h * 31 + ucast c) (word_of_nat hash :: 32 word) (drop i seed))"
proof (induction seed i hash rule: daily_hash_loop.induct)
  case (1 seed i hash)
  show ?case
  proof (cases "i < length seed")
    case True
    have d: "drop i seed = seed ! i # drop (i + 1) seed"
      using True by (simp add: Cons_nth_drop_Suc)
    have w: "(word_of_nat (to_uint32 (hash * 31 + unat (seed ! i))) :: 32 word)
               = word_of_nat hash * 31 + ucast (seed ! i)"
      by (simp add: word_of_nat_to_uint32)
    have "daily_hash_loop seed (i + 1) (to_uint32 (hash * 31 + unat (seed ! i)))
            = unat (foldl (\<lambda>h c. h * 31 + ucast c)
                (word_of_nat (to_uint32 (hash * 31 + unat (seed ! i))) :: 32 word)
                (drop (i + 1) seed))"
      using True by (intro "1.IH") (simp_all add: to_uint32_less)
    then show ?thesis
      using True by (subst daily_hash_loop.simps) (simp add: d w)
  next
    case False
    with "1.prems" show ?thesis
      by (subst daily_hash_loop.simps) (simp add: unat_of_nat)
  qed
qed

lemma daily_hash_loop_hash32: "daily_hash_loop seed 0 0 = unat (daily_hash32 seed)"
  using daily_hash_loop_word [of 0 seed 0] by (simp add: daily_hash32_def)

text \<open>
  C8. \<^verbatim>\<open>createDailyEntry\<close> depends on nothing but the catalog and the date string. It
  folds the code units of the string with \<open>hash * 31 + charCode\<close> in unsigned 32-bit
  arithmetic, starting from 0, and returns the catalog entry at index
  \<open>hash mod catalogSize\<close>, an entry of the catalog whenever the catalog is not empty
  (with an empty catalog the result is \<^verbatim>\<open>undefined\<close>); two calls with the same date
  string over the same catalog return the same entry.
\<close>

theorem createDailyEntry_hash32:
  "createDailyEntry WORDS seed =
     (if WORDS = [] then None
      else Some (WORDS ! (unat (daily_hash32 seed) mod length WORDS)))
   \<and> (WORDS \<noteq> [] \<longrightarrow> (\<exists>e\<in>set WORDS. createDailyEntry WORDS seed = Some e))
   \<and> (seed' = seed \<longrightarrow> createDailyEntry WORDS seed' = createDailyEntry WORDS seed)"
  by (simp add: createDailyEntry_def daily_hash_loop_hash32 array_get_def Let_def)

theorem createDailyEntry_hash32_witness:
  "daily_hash32 [0x32, 0x30, 0x32, 0x35, 0x2D, 0x30, 0x31, 0x2D, 0x30, 0x31] = 274162049
   \<and> createDailyEntry
         [word_entry [0xAC00, 0xBC29], word_entry [0xBC14, 0xB2E4], word_entry [0xD558, 0xB298]]
         [0x32, 0x30, 0x32, 0x35, 0x2D, 0x30, 0x31, 0x2D, 0x30, 0x31]
       = Some (word_entry [0xD558, 0xB298])"
proof -
  have h: "daily_hash32 [0x32, 0x30, 0x32, 0x35, 0x2D, 0x30, 0x31, 0x2D, 0x30, 0x31]
             = 274162049"
    by (simp add: daily_hash32_def)
  from createDailyEntry_hash32
         [of "[word_entry [0xAC00, 0xBC29], word_entry [0xBC14, 0xB2E4],
               word_entry [0xD558, 0xB298]]"
             "[0x32, 0x30, 0x32, 0x35, 0x2D, 0x30, 0x31, 0x2D, 0x30, 0x31]"]
  show ?thesis
    by (simp add: h)
qed

subsection \<open>The endless-mode entry\<close>






section \<open>Scores in percent\<close>

lemma toPercent_1: "toPercent 1 = 100"
  by (simp add: toPercent_def double_mul_def double_round_100 Math_round_def)

lemma toPercent_0: "toPercent 0 = 0"
  by (simp add: toPercent_def double_mul_def double_round_0 Math_round_def)

text \<open>
  The three roundings on the way from the quotient \<open>1 / 199\<close> to the percent, as binary64
  values.
\<close>

lemma double_round_199:
  "double_round (1 / 199) = 5793575400034407 / 1152921504606846976"
  "double_round (1 - 5793575400034407 / 1152921504606846976)
     = 8961936946928223 / 9007199254740992"
  "double_round (8961936946928223 / 9007199254740992 * 100)
     = 3500756619893837 / 35184372088832"
  by (simp_all add: double_eval)

text \<open>
  Two different strings of at most 199 code units score at most what the distance 1 at
  length 199 scores, since rounding is monotone; the product with 100 then rounds to a
  value below the tie \<open>99.5\<close> of \<^verbatim>\<open>Math.round\<close>.
\<close>

lemma similarityScore_different:
  assumes "a \<noteq> b" "length a \<le> 199" "length b \<le> 199"
  shows "similarityScore a b \<le> 8961936946928223 / 9007199254740992"
proof (cases "a = [] \<or> b = []")
  case True
  with assms(1) have "similarityScore a b = 0"
    by (auto simp: similarityScore_def)
  then show ?thesis by simp
next
  case False
  let ?d = "levenshteinDistance a b"
  let ?m = "max (length a) (length b)"
  define x where "x = real ?d / real ?m"
  have d: "1 \<le> ?d"
    using assms(1) edit_distance_zero_iff [of a b]
    by (simp add: levenshteinDistance_edit_distance Suc_le_eq)
  have m: "0 < ?m" "?m \<le> 199"
    using False assms(2,3) by (auto simp: max_def)
  have "1 / 199 \<le> x"
    unfolding x_def using d m by (intro frac_le) simp_all
  then have "double_round (1 / 199) \<le> double_round x"
    by (intro double_round_mono) simp_all
  then have "5793575400034407 / 1152921504606846976 \<le> double_round x"
    by (simp only: double_round_199(1))
  then have q: "1 - double_round x \<le> 1 - 5793575400034407 / 1152921504606846976"
    by simp
  have "double_round (1 - double_round x) \<le> 8961936946928223 / 9007199254740992"
  proof (cases "0 \<le> 1 - double_round x")
    case True
    then have "double_round (1 - double_round x)
                 \<le> double_round (1 - 5793575400034407 / 1152921504606846976)"
      using q by (rule double_round_mono)
    then show ?thesis by (simp only: double_round_199(2))
  next
    case False
    then have "double_round (1 - double_round x) \<le> 0"
      by (intro double_round_nonpos) simp
    then show ?thesis by simp
  qed
  moreover have "similarityScore a b = max 0 (double_round (1 - double_round x))"
    using False by (simp add: similarityScore_def Let_def x_def double_sub_def double_div_def)
  ultimately show ?thesis
    by simp
qed

lemma toPercent_different:
  assumes "a \<noteq> b" "length a \<le> 199" "length b \<le> 199"
  shows "toPercent (similarityScore a b) < 100"
proof -
  let ?s = "similarityScore a b"
  have "0 \<le> ?s * 100"
    using similarityScore_range(1) [of a b] by simp
  moreover have "?s * 100 \<le> 8961936946928223 / 9007199254740992 * 100"
    using similarityScore_different [OF assms] by simp
  ultimately have "double_round (?s * 100)
                     \<le> double_round (8961936946928223 / 9007199254740992 * 100)"
    by (rule double_round_mono)
  then have "double_round (?s * 100) \<le> 3500756619893837 / 35184372088832"
    by (simp only: double_round_199(3))
  then have "double_round (?s * 100) + 1 / 2 < 100"
    by simp
  then show ?thesis
    by (simp add: toPercent_def double_mul_def Math_round_def floor_less_iff)
qed

text \<open>
  Where the exact value of the percent is a tie, the roundings decide: a string of 40
  equal code units scores 7 against 3 of them and 57 against 23 of them, the exact
  values of the percent being 7.5 and 57.5.
\<close>

lemma toPercent_examples:
  "toPercent (similarityScore (replicate 40 c) (replicate 3 c)) = 7"
  "toPercent (similarityScore (replicate 40 c) (replicate 23 c)) = 57"
proof -
  have d: "levenshteinDistance (replicate 40 c) (replicate 3 c) = 37"
    "levenshteinDistance (replicate 40 c) (replicate 23 c) = 17"
    using edit_distance_replicate [of 37 3 c] edit_distance_replicate [of 17 23 c]
    by (simp_all add: levenshteinDistance_edit_distance)
  have q: "double_div 37 40 = 4165829655317709 / 4503599627370496"
    "double_div 17 40 = 7656119366529843 / 18014398509481984"
    by (simp_all add: double_div_def double_eval)
  have r: "double_sub 1 (4165829655317709 / 4503599627370496)
             = 337769972052787 / 4503599627370496"
    "double_sub 1 (7656119366529843 / 18014398509481984)
             = 2589569785738035 / 4503599627370496"
    by (simp_all add: double_sub_def double_eval)
  have p: "double_mul (337769972052787 / 4503599627370496) 100
             = 8444249301319675 / 1125899906842624"
    "double_mul (2589569785738035 / 4503599627370496) 100
             = 8092405580431359 / 140737488355328"
    by (simp_all add: double_mul_def double_eval)
  have "similarityScore (replicate 40 c) (replicate 3 c)
          = max 0 (double_sub 1 (double_div 37 40))"
    by (simp add: similarityScore_def d)
  also have "\<dots> = 337769972052787 / 4503599627370496"
    unfolding q r by simp
  finally have s1: "similarityScore (replicate 40 c) (replicate 3 c)
                      = 337769972052787 / 4503599627370496" .
  show "toPercent (similarityScore (replicate 40 c) (replicate 3 c)) = 7"
    unfolding toPercent_def s1 p by (simp add: Math_round_def)
  have "similarityScore (replicate 40 c) (replicate 23 c)
          = max 0 (double_sub 1 (double_div 17 40))"
    by (simp add: similarityScore_def d)
  also have "\<dots> = 2589569785738035 / 4503599627370496"
    unfolding q r by simp
  finally have s2: "similarityScore (replicate 40 c) (replicate 23 c)
                      = 2589569785738035 / 4503599627370496" .
  show "toPercent (similarityScore (replicate 40 c) (replicate 23 c)) = 57"
    unfolding toPercent_def s2 p by (simp add: Math_round_def)
qed

text \<open>
  C10. For strings \<open>a\<close> and \<open>b\<close> of at most 199 code units each,
  \<^verbatim>\<open>toPercent(similarityScore(a, b))\<close>, computed on binary64 values as the code does, is
  100 exactly when \<open>a = b\<close>; so the \<open>overall\<close> percent that \<^verbatim>\<open>scorePhonemes\<close> computes
  for a guess is 100 exactly when the combined profile of the guess equals that of the
  target, as long as both have at most 199 code units.
\<close>

theorem overall_100_iff_equal:
  "(length a \<le> 199 \<and> length b \<le> 199 \<longrightarrow>
      (toPercent (similarityScore a b) = 100 \<longleftrightarrow> a = b))
   \<and> (length (combined (createPhonemeProfile guess)) \<le> 199
        \<and> length (combined target) \<le> 199 \<longrightarrow>
      (overall (scorePhonemes guess target) = 100
         \<longleftrightarrow> combined (createPhonemeProfile guess) = combined target))"
proof -
  have main: "toPercent (similarityScore a b) = 100 \<longleftrightarrow> a = b"
    if "length a \<le> 199" "length b \<le> 199" for a b :: jsstring
  proof (cases "a = b")
    case True
    then show ?thesis by (simp add: similarityScore_same toPercent_1)
  next
    case False
    with toPercent_different [OF False that] show ?thesis by simp
  qed
  have "overall (scorePhonemes guess target)
          = toPercent (similarityScore (combined (createPhonemeProfile guess)) (combined target))"
    by (simp add: scorePhonemes_def Let_def)
  with main show ?thesis by simp
qed

theorem overall_100_iff_equal_witness:
  "toPercent (similarityScore [0x3131, 0x314F] [0x3131, 0x314F]) = 100
   \<and> toPercent (similarityScore [0x3131, 0x314F] [0x3131, 0x3150]) \<noteq> 100"
  using overall_100_iff_equal [of "[0x3131, 0x314F]" "[0x3131, 0x314F]"]
    overall_100_iff_equal [of "[0x3131, 0x314F]" "[0x3131, 0x3150]"]
  by simp

section \<open>The profile builder\<close>

subsection \<open>The sanitizer\<close>

lemma sanitizeSequence_append:
  "sanitizeSequence (xs @ ys) = sanitizeSequence xs @ sanitizeSequence ys"
  by (simp add: sanitizeSequence_def toLowerCase_def)

lemma sanitize_spec_append: "sanitize_spec (xs @ ys) = sanitize_spec xs @ sanitize_spec ys"
  by (simp add: sanitize_spec_def)

lemma sanitize_spec_Nil: "sanitize_spec [] = []"
  by (simp add: sanitize_spec_def)

lemma unat_lower: "0x41 \<le> unat u \<Longrightarrow> unat u \<le> 0x5A \<Longrightarrow> unat (u + 0x20) = unat u + 0x20"
  for u :: code_unit
proof -
  assume "0x41 \<le> unat u" "unat u \<le> 0x5A"
  then have "unat u + unat (0x20 :: code_unit) < 2 ^ LENGTH(16)"
    by simp
  then have "unat (u + 0x20) = unat u + unat (0x20 :: code_unit)"
    by (simp only: unat_add_lem)
  then show ?thesis by simp
qed

lemma profile_unit_facts:
  assumes "is_profile_unit v"
  shows "toLowerCase_unit v = [v]" and "\<not> is_whitespace v" and "is_word_character v"
    and "is_ascii_letter_or_digit v \<or> is_jamo v" and "\<not> isHangulSyllable (unat v)"
    and "ascii_lower v = v"
proof -
  have n: "\<not> (0x41 \<le> unat v \<and> unat v \<le> 0x5A) \<and> unat v \<noteq> 0x130 \<and> unat v \<noteq> 0x212A"
    using assms unfolding is_profile_unit_def Let_def by arith
  then show "toLowerCase_unit v = [v]"
    by (auto simp: toLowerCase_unit_def Let_def)
  from n show "ascii_lower v = v"
    by (auto simp: ascii_lower_def)
  show "\<not> is_whitespace v"
    using assms unfolding is_profile_unit_def is_whitespace_def Let_def by arith
  show "is_word_character v"
    using assms unfolding is_profile_unit_def is_word_character_def Let_def by arith
  show "is_ascii_letter_or_digit v \<or> is_jamo v"
    using assms unfolding is_profile_unit_def is_ascii_letter_or_digit_def is_jamo_def Let_def
    by arith
  show "\<not> isHangulSyllable (unat v)"
    using assms unfolding is_profile_unit_def isHangulSyllable_def HANGUL_BASE_def
      HANGUL_LAST_def Let_def
    by arith
qed

lemma profile_unit_fixed:
  assumes "is_profile_unit v"
  shows "sanitizeSequence [v] = [v]" and "sanitize_spec [v] = [v]"
  using profile_unit_facts [OF assms]
  by (simp_all add: sanitizeSequence_def sanitize_spec_def toLowerCase_def)

lemma profile_units_fixed:
  "\<forall>v\<in>set s. is_profile_unit v \<Longrightarrow> sanitizeSequence s = s \<and> sanitize_spec s = s"
proof (induction s)
  case Nil
  show ?case by (simp add: sanitizeSequence_Nil sanitize_spec_Nil)
next
  case (Cons v s)
  then show ?case
    using sanitizeSequence_append [of "[v]" s] sanitize_spec_append [of "[v]" s]
    by (simp add: profile_unit_fixed)
qed

text \<open>
  On a code unit outside the block of syllables the sanitizer of the source returns what
  the sanitizer the specification words returns once U+0130 and U+212A are replaced by
  the letters \<open>i\<close> and \<open>k\<close>, and what they keep is in the alphabet of a profile.
\<close>

lemma lowered_letter:
  assumes "0x41 \<le> unat u" "unat u \<le> 0x5A"
  shows "is_profile_unit (u + 0x20)"
  using assms unfolding is_profile_unit_def Let_def unat_lower [OF assms] by arith

lemma unchanged_unit:
  assumes "\<not> isHangulSyllable (unat u)" "\<not> (0x41 \<le> unat u \<and> unat u \<le> 0x5A)"
  shows "is_word_character u \<longleftrightarrow> is_ascii_letter_or_digit u \<or> is_jamo u"
    and "is_ascii_letter_or_digit u \<or> is_jamo u \<Longrightarrow> is_profile_unit u"
proof -
  show "is_word_character u \<longleftrightarrow> is_ascii_letter_or_digit u \<or> is_jamo u"
    using assms unfolding is_word_character_def is_ascii_letter_or_digit_def is_jamo_def
      isHangulSyllable_def HANGUL_BASE_def HANGUL_LAST_def Let_def
    by arith
  show "is_profile_unit u" if "is_ascii_letter_or_digit u \<or> is_jamo u"
    using that assms(2) unfolding is_profile_unit_def is_ascii_letter_or_digit_def is_jamo_def
      Let_def
    by arith
qed

lemma lowered_exception_other:
  "unat u \<noteq> 0x130 \<Longrightarrow> unat u \<noteq> 0x212A \<Longrightarrow> lowered_exception u = u"
  by (simp add: lowered_exception_def)

lemma sanitize_unit:
  assumes "\<not> isHangulSyllable (unat u)"
  shows "sanitizeSequence [u] = sanitize_spec [lowered_exception u]
         \<and> (\<forall>v\<in>set (sanitize_spec [lowered_exception u]). is_profile_unit v)"
proof -
  consider (upper) "0x41 \<le> unat u" "unat u \<le> 0x5A"
    | (dotted) "unat u = 0x130" | (kelvin) "unat u = 0x212A"
    | (other) "\<not> (0x41 \<le> unat u \<and> unat u \<le> 0x5A)" "unat u \<noteq> 0x130" "unat u \<noteq> 0x212A"
    by blast
  then show ?thesis
  proof cases
    case upper
    then have l: "toLowerCase [u] = [u + 0x20]"
      by (auto simp: toLowerCase_def toLowerCase_unit_def Let_def)
    from upper have e: "lowered_exception u = u"
      by (intro lowered_exception_other) simp_all
    from upper have a: "ascii_lower u = u + 0x20"
      by (simp add: ascii_lower_def)
    note p = lowered_letter [OF upper]
    show ?thesis
      using p profile_unit_facts [OF p]
      by (simp add: sanitizeSequence_def sanitize_spec_def l e a)
  next
    case dotted
    then have l: "toLowerCase [u] = [0x69, 0x307]"
      by (auto simp: toLowerCase_def toLowerCase_unit_def Let_def)
    from dotted have e: "lowered_exception u = 0x69"
      by (simp add: lowered_exception_def)
    have p: "is_profile_unit (0x69 :: code_unit)"
      by (simp add: is_profile_unit_def)
    have "\<not> is_word_character (0x307 :: code_unit)"
      by (simp add: is_word_character_def)
    then show ?thesis
      using p profile_unit_facts [OF p]
      by (simp add: sanitizeSequence_def sanitize_spec_def l e)
  next
    case kelvin
    then have l: "toLowerCase [u] = [0x6B]"
      by (auto simp: toLowerCase_def toLowerCase_unit_def Let_def)
    from kelvin have e: "lowered_exception u = 0x6B"
      by (simp add: lowered_exception_def)
    have p: "is_profile_unit (0x6B :: code_unit)"
      by (simp add: is_profile_unit_def)
    show ?thesis
      using p profile_unit_facts [OF p]
      by (simp add: sanitizeSequence_def sanitize_spec_def l e)
  next
    case other
    then have l: "toLowerCase [u] = [u]"
      by (auto simp: toLowerCase_def toLowerCase_unit_def Let_def)
    from other have e: "lowered_exception u = u"
      by (intro lowered_exception_other)
    from other have a: "ascii_lower u = u"
      by (simp add: ascii_lower_def)
    show ?thesis
      using unchanged_unit [OF assms other(1)]
      by (simp add: sanitizeSequence_def sanitize_spec_def l e a)
  qed
qed

lemma sanitize_units:
  "\<forall>u\<in>set s. \<not> isHangulSyllable (unat u) \<Longrightarrow>
     sanitizeSequence s = sanitize_spec (map lowered_exception s)
     \<and> (\<forall>v\<in>set (sanitize_spec (map lowered_exception s)). is_profile_unit v)"
proof (induction s)
  case Nil
  show ?case by (simp add: sanitizeSequence_Nil sanitize_spec_Nil)
next
  case (Cons u s)
  then show ?case
    using sanitizeSequence_append [of "[u]" s]
      sanitize_spec_append [of "[lowered_exception u]" "map lowered_exception s"]
      sanitize_unit [of u]
    by auto
qed

lemma whitespace_not_special:
  assumes "is_whitespace w"
  shows "\<not> isHangulSyllable (unat w)" and "\<not> is_high_surrogate w"
    and "\<not> is_low_surrogate w" and "\<not> is_word_character w"
    and "toLowerCase_unit w = [w]"
proof -
  show "\<not> isHangulSyllable (unat w)"
    using assms unfolding is_whitespace_def isHangulSyllable_def HANGUL_BASE_def
      HANGUL_LAST_def Let_def
    by arith
  show "\<not> is_high_surrogate w"
    using assms unfolding is_whitespace_def is_high_surrogate_def Let_def by arith
  show "\<not> is_low_surrogate w"
    using assms unfolding is_whitespace_def is_low_surrogate_def Let_def by arith
  show "\<not> is_word_character w"
    using assms unfolding is_whitespace_def is_word_character_def Let_def by arith
  have "\<not> (0x41 \<le> unat w \<and> unat w \<le> 0x5A) \<and> unat w \<noteq> 0x130 \<and> unat w \<noteq> 0x212A"
    using assms unfolding is_whitespace_def Let_def by arith
  then show "toLowerCase_unit w = [w]"
    by (auto simp: toLowerCase_unit_def Let_def)
qed

lemma sanitize_whitespace: "is_whitespace w \<Longrightarrow> sanitizeSequence [w] = []"
  using whitespace_not_special [of w]
  by (simp add: sanitizeSequence_def toLowerCase_def)

subsection \<open>The loop over the characters\<close>

lemma jamo_profile_unit: "is_jamo u \<Longrightarrow> is_profile_unit u"
  by (simp add: is_jamo_def is_profile_unit_def)

lemma glyph_units:
  "k < 19 \<Longrightarrow> \<forall>v\<in>set (CHOSEONG ! k). is_profile_unit v"
  "k < 21 \<Longrightarrow> \<forall>v\<in>set (JUNGSEONG ! k). is_profile_unit v"
  "k < 28 \<Longrightarrow> \<forall>v\<in>set (JONGSEONG ! k). is_profile_unit v"
proof -
  show "\<forall>v\<in>set (CHOSEONG ! k). is_profile_unit v" if "k < 19"
  proof -
    from that have "CHOSEONG ! k \<in> set CHOSEONG" by (simp add: table_lengths)
    with jamo_tables(1) obtain u where "CHOSEONG ! k = [u]" "is_jamo u" by blast
    then show ?thesis by (simp add: jamo_profile_unit)
  qed
  show "\<forall>v\<in>set (JUNGSEONG ! k). is_profile_unit v" if "k < 21"
  proof -
    from that have "JUNGSEONG ! k \<in> set JUNGSEONG" by (simp add: table_lengths)
    with jamo_tables(2) obtain u where "JUNGSEONG ! k = [u]" "is_jamo u" by blast
    then show ?thesis by (simp add: jamo_profile_unit)
  qed
  show "\<forall>v\<in>set (JONGSEONG ! k). is_profile_unit v" if "k < 28"
  proof -
    from that have "JONGSEONG ! k \<in> set JONGSEONG" by (simp add: table_lengths)
    with jamo_tables(3) consider "JONGSEONG ! k = []"
      | u where "JONGSEONG ! k = [u]" "is_jamo u" by blast
    then show ?thesis
      by cases (simp_all add: jamo_profile_unit)
  qed
qed

lemma decompose_syllable:
  assumes "isHangulSyllable (unat u)"
  shows "decompose [u] =
           Some (CHOSEONG ! ((unat u - HANGUL_BASE) div CYCLE),
                 JUNGSEONG ! (((unat u - HANGUL_BASE) mod CYCLE) div FINAL_CONSONANT_COUNT),
                 JONGSEONG ! ((unat u - HANGUL_BASE) mod FINAL_CONSONANT_COUNT))"
  using assms
  by (simp add: decompose_def isHangulSyllable_def HANGUL_BASE_def HANGUL_LAST_def CYCLE_588
        FINAL_CONSONANT_COUNT_def Let_def)

lemma decompose_other: "\<not> isHangulSyllable (code_point char) \<Longrightarrow> decompose char = None"
  by (auto simp: decompose_def isHangulSyllable_def HANGUL_BASE_def HANGUL_LAST_def Let_def)

text \<open>
  Replacing U+0130 and U+212A by their letters changes neither a syllable nor a
  surrogate, so the string iterator cuts the replaced string where it cuts the string.
\<close>

lemma lowered_exception_syllable: "isHangulSyllable (unat u) \<Longrightarrow> lowered_exception u = u"
  by (intro lowered_exception_other) (simp_all add: isHangulSyllable_def HANGUL_BASE_def)

lemma lowered_exception_surrogate:
  "is_high_surrogate u \<or> is_low_surrogate u \<Longrightarrow> lowered_exception u = u"
  by (intro lowered_exception_other)
     (auto simp: is_high_surrogate_def is_low_surrogate_def)

lemma lowered_exception_not_syllable:
  "\<not> isHangulSyllable (unat u) \<Longrightarrow> \<not> isHangulSyllable (unat (lowered_exception u))"
  by (simp add: lowered_exception_def isHangulSyllable_def HANGUL_BASE_def)

lemma surrogate_lowered_exception:
  "is_high_surrogate (lowered_exception u) = is_high_surrogate u"
  "is_low_surrogate (lowered_exception u) = is_low_surrogate u"
  by (simp_all add: lowered_exception_def is_high_surrogate_def is_low_surrogate_def)

lemma Array_from_lowered_exception:
  "Array_from (map lowered_exception text) = map (map lowered_exception) (Array_from text)"
  by (induction "text" rule: Array_from.induct) (simp_all add: surrogate_lowered_exception)

text \<open>
  The characters the string iterator yields: one code unit, or a high surrogate followed
  by a low one.
\<close>

lemma profile_step_char:
  assumes "(\<exists>u. char = [u])
           \<or> (\<exists>h l. char = [h, l] \<and> is_high_surrogate h \<and> is_low_surrogate l)"
  shows "profile_step acc char =
     \<lparr>combined = combined acc @ contribution glyphs_combined (map lowered_exception char),
      initial = initial acc @ contribution glyphs_initial (map lowered_exception char),
      medial = medial acc @ contribution glyphs_medial (map lowered_exception char),
      final = final acc @ contribution glyphs_final (map lowered_exception char)\<rparr>
     \<and> (\<forall>v\<in>set (contribution glyphs_combined (map lowered_exception char)).
           is_profile_unit v)
     \<and> (\<forall>v\<in>set (contribution glyphs_initial (map lowered_exception char)).
           is_profile_unit v)
     \<and> (\<forall>v\<in>set (contribution glyphs_medial (map lowered_exception char)).
           is_profile_unit v)
     \<and> (\<forall>v\<in>set (contribution glyphs_final (map lowered_exception char)).
           is_profile_unit v)"
proof -
  consider (syllable) u where "char = [u]" "isHangulSyllable (unat u)"
    | (other) "\<not> isHangulSyllable (code_point (map lowered_exception char))" "char \<noteq> []"
              "\<not> isHangulSyllable (unat (char ! 0))"
              "\<forall>u\<in>set char. \<not> isHangulSyllable (unat u)"
  proof -
    from assms consider u where "char = [u]"
      | h l where "char = [h, l]" "is_high_surrogate h" "is_low_surrogate l"
      by blast
    then show ?thesis
    proof cases
      case 1
      then show ?thesis
        using that lowered_exception_not_syllable [of u]
        by (cases "isHangulSyllable (unat u)") simp_all
    next
      case 2
      moreover from 2 have "\<not> isHangulSyllable (unat l)"
        by (simp add: is_low_surrogate_def isHangulSyllable_def HANGUL_LAST_def)
      moreover from 2 have "map lowered_exception char = char"
        by (simp add: lowered_exception_surrogate)
      ultimately show ?thesis
        using that(2) code_point_pair [of h l] high_surrogate_not_syllable [of h] by simp
    qed
  qed
  then show ?thesis
  proof cases
    case syllable
    note b = syllable_index_bounds [OF syllable(2)]
    have same: "map lowered_exception [u] = [u]"
      by (simp add: lowered_exception_syllable [OF syllable(2)])
    show ?thesis
      unfolding syllable(1) same profile_step_syllable [OF syllable(2)]
      using glyph_units(1) [OF b(1)] glyph_units(2) [OF b(2)] glyph_units(3) [OF b(3)]
      by (auto simp: contribution_def decompose_syllable [OF syllable(2)]
            glyphs_combined_def glyphs_initial_def glyphs_medial_def glyphs_final_def)
  next
    case other
    have step: "profile_step acc char =
       \<lparr>combined = combined acc @ sanitizeSequence char,
        initial = initial acc @ sanitizeSequence char,
        medial = medial acc @ sanitizeSequence char,
        final = final acc @ sanitizeSequence char\<rparr>"
      using other(2,3) by (simp add: profile_step_def charCodeAt_def Let_def)
    show ?thesis
      unfolding step
      using sanitize_units [OF other(4)]
      by (simp add: contribution_def decompose_other [OF other(1)])
  qed
qed

lemma Array_from_valid:
  "\<forall>char\<in>set (Array_from text). (\<exists>u. char = [u])
     \<or> (\<exists>h l. char = [h, l] \<and> is_high_surrogate h \<and> is_low_surrogate l)"
  using Array_from_chars by blast

lemma foldl_profile_step:
  assumes "\<forall>char\<in>set chars. (\<exists>u. char = [u])
     \<or> (\<exists>h l. char = [h, l] \<and> is_high_surrogate h \<and> is_low_surrogate l)"
  shows "foldl profile_step acc chars =
     \<lparr>combined = combined acc
        @ concat (map (\<lambda>char. contribution glyphs_combined (map lowered_exception char)) chars),
      initial = initial acc
        @ concat (map (\<lambda>char. contribution glyphs_initial (map lowered_exception char)) chars),
      medial = medial acc
        @ concat (map (\<lambda>char. contribution glyphs_medial (map lowered_exception char)) chars),
      final = final acc
        @ concat (map (\<lambda>char. contribution glyphs_final (map lowered_exception char)) chars)\<rparr>"
  using assms
proof (induction chars arbitrary: acc)
  case Nil
  show ?case by simp
next
  case (Cons char chars)
  from Cons.prems have "(\<exists>u. char = [u])
           \<or> (\<exists>h l. char = [h, l] \<and> is_high_surrogate h \<and> is_low_surrogate l)"
    by simp
  note step = profile_step_char [OF this, of acc, THEN conjunct1]
  from Cons.prems show ?case
    by (simp add: Cons.IH step)
qed

lemma contribution_char_units:
  assumes "(\<exists>u. char = [u])
           \<or> (\<exists>h l. char = [h, l] \<and> is_high_surrogate h \<and> is_low_surrogate l)"
  shows "\<forall>v\<in>set (contribution glyphs_combined (map lowered_exception char)). is_profile_unit v"
    and "\<forall>v\<in>set (contribution glyphs_initial (map lowered_exception char)). is_profile_unit v"
    and "\<forall>v\<in>set (contribution glyphs_medial (map lowered_exception char)). is_profile_unit v"
    and "\<forall>v\<in>set (contribution glyphs_final (map lowered_exception char)). is_profile_unit v"
  using profile_step_char [OF assms, of "\<lparr>combined = [], initial = [], medial = [], final = []\<rparr>"]
  by blast+

lemma contribution_units:
  assumes "\<forall>char\<in>set chars. (\<exists>u. char = [u])
     \<or> (\<exists>h l. char = [h, l] \<and> is_high_surrogate h \<and> is_low_surrogate l)"
  shows "\<forall>v\<in>set (concat (map (\<lambda>char. contribution glyphs_combined
            (map lowered_exception char)) chars)). is_profile_unit v"
    and "\<forall>v\<in>set (concat (map (\<lambda>char. contribution glyphs_initial
            (map lowered_exception char)) chars)). is_profile_unit v"
    and "\<forall>v\<in>set (concat (map (\<lambda>char. contribution glyphs_medial
            (map lowered_exception char)) chars)). is_profile_unit v"
    and "\<forall>v\<in>set (concat (map (\<lambda>char. contribution glyphs_final
            (map lowered_exception char)) chars)). is_profile_unit v"
proof -
  have each: "\<forall>v\<in>set (concat (map (\<lambda>char. contribution pick (map lowered_exception char))
                 chars)). is_profile_unit v"
    if "\<And>char. char \<in> set chars \<Longrightarrow>
          \<forall>v\<in>set (contribution pick (map lowered_exception char)). is_profile_unit v"
    for pick
    using that by auto
  show "\<forall>v\<in>set (concat (map (\<lambda>char. contribution glyphs_combined
            (map lowered_exception char)) chars)). is_profile_unit v"
    using assms by (intro each contribution_char_units(1)) blast
  show "\<forall>v\<in>set (concat (map (\<lambda>char. contribution glyphs_initial
            (map lowered_exception char)) chars)). is_profile_unit v"
    using assms by (intro each contribution_char_units(2)) blast
  show "\<forall>v\<in>set (concat (map (\<lambda>char. contribution glyphs_medial
            (map lowered_exception char)) chars)). is_profile_unit v"
    using assms by (intro each contribution_char_units(3)) blast
  show "\<forall>v\<in>set (concat (map (\<lambda>char. contribution glyphs_final
            (map lowered_exception char)) chars)). is_profile_unit v"
    using assms by (intro each contribution_char_units(4)) blast
qed

text \<open>
  The accumulators hold only jamo, lowercase ASCII letters and digits, so the last
  sanitizing pass returns them as they are: each channel of the profile is the
  concatenation of what the characters contribute to it.
\<close>

lemma createPhonemeProfile_channels:
  "createPhonemeProfile text =
     \<lparr>combined = concat (map (\<lambda>char. contribution glyphs_combined
          (map lowered_exception char)) (Array_from text)),
      initial = concat (map (\<lambda>char. contribution glyphs_initial
          (map lowered_exception char)) (Array_from text)),
      medial = concat (map (\<lambda>char. contribution glyphs_medial
          (map lowered_exception char)) (Array_from text)),
      final = concat (map (\<lambda>char. contribution glyphs_final
          (map lowered_exception char)) (Array_from text))\<rparr>"
  using contribution_units [OF Array_from_valid, of "text"]
  by (simp add: createPhonemeProfile_def Let_def foldl_profile_step [OF Array_from_valid]
        profile_units_fixed)

lemma createPhonemeProfile_profile_spec:
  "createPhonemeProfile text = profile_spec (map lowered_exception text)"
  using contribution_units [OF Array_from_valid, of "text"]
  by (simp add: createPhonemeProfile_channels profile_spec_def Let_def profile_units_fixed
        Array_from_lowered_exception comp_def)

lemma profile_channel_units:
  "\<forall>v\<in>set (combined (createPhonemeProfile text)). is_profile_unit v"
  "\<forall>v\<in>set (initial (createPhonemeProfile text)). is_profile_unit v"
  "\<forall>v\<in>set (medial (createPhonemeProfile text)). is_profile_unit v"
  "\<forall>v\<in>set (final (createPhonemeProfile text)). is_profile_unit v"
  using contribution_units [OF Array_from_valid, of "text"]
  by (simp_all add: createPhonemeProfile_channels)

text \<open>
  C5, as the claim states it, fails for a character outside ASCII whose lowercase image
  holds an ASCII letter: \<^verbatim>\<open>toLowerCase\<close> is the full Unicode mapping, not an ASCII fold.
  For the Kelvin sign U+212A the code returns the letter \<open>k\<close> in the four channels, while
  the sanitizer as worded (ASCII fold, then strip what is not an ASCII letter, a digit or
  a jamo) strips the character and leaves the four channels empty.
\<close>

theorem createPhonemeProfile_kelvin_counterexample:
  "createPhonemeProfile [0x212A]
     = \<lparr>combined = [0x6B], initial = [0x6B], medial = [0x6B], final = [0x6B]\<rparr>
   \<and> profile_spec [0x212A] = \<lparr>combined = [], initial = [], medial = [], final = []\<rparr>"
proof (rule conjI)
  show "createPhonemeProfile [0x212A]
     = \<lparr>combined = [0x6B], initial = [0x6B], medial = [0x6B], final = [0x6B]\<rparr>"
    by (simp add: createPhonemeProfile_def profile_step_def charCodeAt_def
          isHangulSyllable_def HANGUL_BASE_def HANGUL_LAST_def sanitizeSequence_def
          toLowerCase_def toLowerCase_unit_def is_whitespace_def is_word_character_def Let_def)
  have "decompose [0x212A] = None"
    by (simp add: decompose_def)
  moreover have "sanitize_spec [0x212A] = []"
    by (simp add: sanitize_spec_def ascii_lower_def is_whitespace_def
          is_ascii_letter_or_digit_def is_jamo_def)
  ultimately show "profile_spec [0x212A]
     = \<lparr>combined = [], initial = [], medial = [], final = []\<rparr>"
    by (simp add: profile_spec_def contribution_def sanitize_spec_Nil)
qed

text \<open>
  C5, amended. \<^verbatim>\<open>createPhonemeProfile\<close> applied to any string, read character by
  character as the string iterator yields them, returns the profile the specification
  words for the string in which U+0130 and U+212A are replaced by the letters \<open>i\<close> and
  \<open>k\<close> that \<^verbatim>\<open>toLowerCase\<close> makes of them: each decomposing character gives its initial
  glyph to the initial channel, its medial glyph to the medial channel, its final glyph
  to the final channel when that glyph is not empty, and the three glyphs to the combined
  channel; each other character gives the same sanitized string (A to Z lowercased,
  whitespace removed, everything but ASCII letters, digits and jamo removed) to the four
  channels; the four channels are sanitized once more. On a string without these two
  code units this is the profile the specification words for the string itself.
  \<^verbatim>\<open>normalizeForComparison\<close> returns the combined channel of the profile.
\<close>

theorem createPhonemeProfile_profile:
  "createPhonemeProfile text = profile_spec (map lowered_exception text)
   \<and> ((\<forall>u\<in>set text. unat u \<noteq> 0x130 \<and> unat u \<noteq> 0x212A) \<longrightarrow>
        createPhonemeProfile text = profile_spec text)
   \<and> normalizeForComparison text = combined (createPhonemeProfile text)"
proof -
  have "map lowered_exception text = text"
    if "\<forall>u\<in>set text. unat u \<noteq> 0x130 \<and> unat u \<noteq> 0x212A"
    using that by (intro map_idI) (simp add: lowered_exception_other)
  then show ?thesis
    by (simp add: createPhonemeProfile_profile_spec normalizeForComparison_def)
qed

theorem createPhonemeProfile_profile_witness:
  "createPhonemeProfile [0xAC01, 0x41, 0x20, 0xB098]
     = \<lparr>combined = [0x3131, 0x314F, 0x3131, 0x61, 0x3134, 0x314F],
        initial = [0x3131, 0x61, 0x3134],
        medial = [0x314F, 0x61, 0x314F],
        final = [0x3131, 0x61]\<rparr>
   \<and> normalizeForComparison [0xAC01, 0x41, 0x20, 0xB098]
       = [0x3131, 0x314F, 0x3131, 0x61, 0x3134, 0x314F]"
proof -
  have s: "sanitize_spec [0x41] = [0x61]" "sanitize_spec [0x20] = []"
    by (simp_all add: sanitize_spec_def ascii_lower_def is_whitespace_def
          is_ascii_letter_or_digit_def is_jamo_def)
  have d: "decompose [0xAC01] = Some ([0x3131], [0x314F], [0x3131])"
    "decompose [0xB098] = Some ([0x3134], [0x314F], [])"
    "decompose [0x41] = None" "decompose [0x20] = None"
    by (simp_all add: decompose_def CHOSEONG_def JUNGSEONG_def JONGSEONG_def)
  have p: "profile_spec [0xAC01, 0x41, 0x20, 0xB098]
     = \<lparr>combined = sanitize_spec [0x3131, 0x314F, 0x3131, 0x61, 0x3134, 0x314F],
        initial = sanitize_spec [0x3131, 0x61, 0x3134],
        medial = sanitize_spec [0x314F, 0x61, 0x314F],
        final = sanitize_spec [0x3131, 0x61]\<rparr>"
    by (simp add: profile_spec_def is_high_surrogate_def contribution_def d s
          glyphs_combined_def glyphs_initial_def glyphs_medial_def glyphs_final_def)
  have u: "sanitize_spec [0x3131, 0x314F, 0x3131, 0x61, 0x3134, 0x314F]
             = [0x3131, 0x314F, 0x3131, 0x61, 0x3134, 0x314F]"
    "sanitize_spec [0x3131, 0x61, 0x3134] = [0x3131, 0x61, 0x3134]"
    "sanitize_spec [0x314F, 0x61, 0x314F] = [0x314F, 0x61, 0x314F]"
    "sanitize_spec [0x3131, 0x61] = [0x3131, 0x61]"
    by (rule profile_units_fixed [THEN conjunct2], simp add: is_profile_unit_def)+
  from createPhonemeProfile_profile [of "[0xAC01, 0x41, 0x20, 0xB098]"]
  show ?thesis
    by (simp add: p u lowered_exception_def)
qed

subsection \<open>Whitespace at the ends of a guess\<close>

lemma Array_from_Cons_single:
  "\<not> is_high_surrogate w \<Longrightarrow> Array_from (w # rest) = [w] # Array_from rest"
  by (cases rest) simp_all

lemma Array_from_snoc_single:
  "\<not> is_low_surrogate w \<Longrightarrow> Array_from (xs @ [w]) = Array_from xs @ [[w]]"
  by (induction xs rule: Array_from.induct) simp_all

lemma contribution_whitespace:
  assumes "is_whitespace w"
  shows "contribution pick [lowered_exception w] = []"
proof -
  note n = whitespace_not_special(1) [OF assms]
  have "decompose [lowered_exception w] = None"
    using lowered_exception_not_syllable [OF n] by (intro decompose_other) simp
  moreover have "sanitize_spec [lowered_exception w] = []"
    using sanitize_unit [OF n, THEN conjunct1] sanitize_whitespace [OF assms] by simp
  ultimately show ?thesis
    by (simp add: contribution_def)
qed

lemma contributions_dropWhile:
  "concat (map (\<lambda>char. contribution pick (map lowered_exception char))
        (Array_from (dropWhile is_whitespace s)))
     = concat (map (\<lambda>char. contribution pick (map lowered_exception char))
        (Array_from s))"
proof (induction s)
  case Nil
  show ?case by simp
next
  case (Cons w s)
  show ?case
  proof (cases "is_whitespace w")
    case True
    then show ?thesis
      using Cons.IH whitespace_not_special(2) [OF True]
      by (simp add: Array_from_Cons_single contribution_whitespace)
  next
    case False
    then show ?thesis by simp
  qed
qed

lemma contributions_dropWhile_end:
  "concat (map (\<lambda>char. contribution pick (map lowered_exception char))
        (Array_from (rev (dropWhile is_whitespace r))))
     = concat (map (\<lambda>char. contribution pick (map lowered_exception char))
        (Array_from (rev r)))"
proof (induction r)
  case Nil
  show ?case by simp
next
  case (Cons w r)
  show ?case
  proof (cases "is_whitespace w")
    case True
    then show ?thesis
      using Cons.IH whitespace_not_special(3) [OF True]
      by (simp add: Array_from_snoc_single contribution_whitespace)
  next
    case False
    then show ?thesis by simp
  qed
qed

lemma contributions_trim:
  "concat (map (\<lambda>char. contribution pick (map lowered_exception char))
        (Array_from (trim s)))
     = concat (map (\<lambda>char. contribution pick (map lowered_exception char))
        (Array_from s))"
  using contributions_dropWhile_end [of pick "rev (dropWhile is_whitespace s)"]
    contributions_dropWhile [of pick s]
  by (simp add: trim_def)

lemma createPhonemeProfile_trim: "createPhonemeProfile (trim s) = createPhonemeProfile s"
  by (simp add: createPhonemeProfile_channels contributions_trim)

lemma normalizeForComparison_trim: "normalizeForComparison (trim s) = normalizeForComparison s"
  by (simp add: normalizeForComparison_def createPhonemeProfile_trim)

section \<open>Submitting a guess\<close>

lemma handleSubmit_rejected:
  assumes "\<not> accepted s"
  shows "\<exists>t. handleSubmit s = s\<lparr>feedback := Some \<lparr>tone = warn, feedback_text = t\<rparr>\<rparr>"
proof (cases "trim (inputValue s) = []")
  case True
  then have "handleSubmit s = s\<lparr>feedback := Some \<lparr>tone = warn, feedback_text = EnterAWord\<rparr>\<rparr>"
    by (simp add: handleSubmit_def)
  then show ?thesis ..
next
  case False
  note nonempty = this
  show ?thesis
  proof (cases "normalizeForComparison (inputValue s) = []")
    case True
    with nonempty have "handleSubmit s
        = s\<lparr>feedback := Some \<lparr>tone = warn, feedback_text = NothingToCompare\<rparr>\<rparr>"
      by (simp add: handleSubmit_def normalizeForComparison_trim)
    then show ?thesis ..
  next
    case False
    with nonempty assms
    have "list_ex (\<lambda>item. normalized item = normalizeForComparison (inputValue s)) (guesses s)"
      by (simp add: accepted_def)
    with nonempty False have "handleSubmit s
        = s\<lparr>feedback := Some \<lparr>tone = warn, feedback_text = AlreadyTried\<rparr>\<rparr>"
      by (simp add: handleSubmit_def normalizeForComparison_trim)
    then show ?thesis ..
  qed
qed

lemma handleSubmit_accepted:
  assumes "accepted s"
  shows "handleSubmit s =
     (let guess = trim (inputValue s);
          bd = scorePhonemes guess (answerProfile s);
          newGuess = \<lparr>guess_value = guess, normalized = normalizeForComparison guess,
                       breakdown = bd\<rparr>;
          s3 = (recordGuess (overall bd = 100)
                  (s\<lparr>guesses := newGuess # guesses s, inputValue := []\<rparr>))
                \<lparr>feedback := Some (formatFeedback (overall bd))\<rparr>
      in if overall bd = 100 then markSolved (s3\<lparr>status := cleared\<rparr>) else s3)"
  using assms
  by (simp add: handleSubmit_def accepted_def normalizeForComparison_trim Let_def)

lemma recordGuess_fields:
  "guesses (recordGuess c s) = guesses s" "status (recordGuess c s) = status s"
  "solvedTerms (recordGuess c s) = solvedTerms s"
  "currentEntry (recordGuess c s) = currentEntry s"
  "totalGuesses (stats (recordGuess c s)) = totalGuesses (stats s) + 1"
  "correctAnswers (stats (recordGuess c s)) = correctAnswers (stats s) + (if c then 1 else 0)"
  by (simp_all add: recordGuess_def Let_def)

lemma markSolved_fields:
  "guesses (markSolved s) = guesses s" "status (markSolved s) = status s"
  "stats (markSolved s) = stats s"
  "solvedTerms (markSolved s) =
     (if entry_term (currentEntry s) \<in> set (solvedTerms s) then solvedTerms s
      else solvedTerms s @ [entry_term (currentEntry s)])"
  by (simp_all add: markSolved_def Let_def)


lemma handleSubmit_accepted_guesses:
  assumes "accepted s"
  shows "guesses (handleSubmit s) =
           \<lparr>guess_value = trim (inputValue s),
            normalized = normalizeForComparison (trim (inputValue s)),
            breakdown = scorePhonemes (trim (inputValue s)) (answerProfile s)\<rparr> # guesses s"
  unfolding handleSubmit_accepted [OF assms]
  by (simp add: Let_def recordGuess_fields markSolved_fields)

lemma handleSubmit_rejected_guesses:
  assumes "\<not> accepted s"
  shows "guesses (handleSubmit s) = guesses s"
proof -
  from handleSubmit_rejected [OF assms] obtain t where
    "handleSubmit s = s\<lparr>feedback := Some \<lparr>tone = warn, feedback_text = t\<rparr>\<rparr>" ..
  then show ?thesis by simp
qed

text \<open>
  Two invariants of the guesses of a round: the field \<open>normalized\<close> of a recorded guess
  is the normalized profile of its value, and no two recorded guesses have the same
  normalized profile.
\<close>

lemma handleSubmit_keeps_normalized:
  assumes "\<forall>g\<in>set (guesses s). normalized g = normalizeForComparison (guess_value g)"
  shows "\<forall>g\<in>set (guesses (handleSubmit s)).
           normalized g = normalizeForComparison (guess_value g)"
proof (cases "accepted s")
  case True
  with assms show ?thesis
    by (simp add: handleSubmit_accepted_guesses)
next
  case False
  with assms show ?thesis
    by (simp add: handleSubmit_rejected_guesses)
qed

lemma handleSubmit_keeps_distinct:
  assumes "distinct (map normalized (guesses s))"
  shows "distinct (map normalized (guesses (handleSubmit s)))"
proof (cases "accepted s")
  case True
  then have "normalizeForComparison (inputValue s) \<notin> normalized ` set (guesses s)"
    by (auto simp: accepted_def list_ex_iff)
  with True assms show ?thesis
    by (simp add: handleSubmit_accepted_guesses normalizeForComparison_trim)
next
  case False
  with assms show ?thesis
    by (simp add: handleSubmit_rejected_guesses)
qed

text \<open>
  C9. When the trimmed input is empty, or its normalized combined profile is empty, or a
  guess recorded this round has that normalized profile, \<^verbatim>\<open>handleSubmit\<close> changes nothing
  but the feedback, which it sets to a message of tone \<open>warn\<close>: the list of guesses, the
  status, the counters of the statistics and the solved terms are those of before.
\<close>

theorem handleSubmit_rejection:
  "trim (inputValue s) = []
   \<or> normalizeForComparison (inputValue s) = []
   \<or> (\<exists>item\<in>set (guesses s). normalized item = normalizeForComparison (inputValue s))
   \<longrightarrow>
     (\<exists>t. handleSubmit s = s\<lparr>feedback := Some \<lparr>tone = warn, feedback_text = t\<rparr>\<rparr>)
     \<and> guesses (handleSubmit s) = guesses s
     \<and> status (handleSubmit s) = status s
     \<and> totalGuesses (stats (handleSubmit s)) = totalGuesses (stats s)
     \<and> correctAnswers (stats (handleSubmit s)) = correctAnswers (stats s)
     \<and> solvedTerms (handleSubmit s) = solvedTerms s"
proof
  assume "trim (inputValue s) = []
   \<or> normalizeForComparison (inputValue s) = []
   \<or> (\<exists>item\<in>set (guesses s). normalized item = normalizeForComparison (inputValue s))"
  then have "\<not> accepted s"
    by (auto simp: accepted_def list_ex_iff)
  from handleSubmit_rejected [OF this] obtain t where
    t: "handleSubmit s = s\<lparr>feedback := Some \<lparr>tone = warn, feedback_text = t\<rparr>\<rparr>" ..
  then have "\<exists>t. handleSubmit s = s\<lparr>feedback := Some \<lparr>tone = warn, feedback_text = t\<rparr>\<rparr>"
    by blast
  moreover from t have "guesses (handleSubmit s) = guesses s"
    "status (handleSubmit s) = status s"
    "totalGuesses (stats (handleSubmit s)) = totalGuesses (stats s)"
    "correctAnswers (stats (handleSubmit s)) = correctAnswers (stats s)"
    "solvedTerms (handleSubmit s) = solvedTerms s"
    by simp_all
  ultimately show "(\<exists>t. handleSubmit s = s\<lparr>feedback := Some \<lparr>tone = warn, feedback_text = t\<rparr>\<rparr>)
     \<and> guesses (handleSubmit s) = guesses s
     \<and> status (handleSubmit s) = status s
     \<and> totalGuesses (stats (handleSubmit s)) = totalGuesses (stats s)
     \<and> correctAnswers (stats (handleSubmit s)) = correctAnswers (stats s)
     \<and> solvedTerms (handleSubmit s) = solvedTerms s"
    by blast
qed

lemma normalize_examples:
  "normalizeForComparison [0x21] = []"
  "normalizeForComparison [0xAC00] = [0x3131, 0x314F]"
  "normalizeForComparison [0xAC00, 0xBC29] = [0x3131, 0x314F, 0x3142, 0x314F, 0x3147]"
  by (simp_all add: normalizeForComparison_def createPhonemeProfile_def profile_step_def
        charCodeAt_def isHangulSyllable_def HANGUL_BASE_def HANGUL_LAST_def CYCLE_588
        FINAL_CONSONANT_COUNT_def array_get_def to_string_def truthy_def
        CHOSEONG_def JUNGSEONG_def JONGSEONG_def sanitizeSequence_def toLowerCase_def
        toLowerCase_unit_def is_whitespace_def is_word_character_def is_high_surrogate_def
        Let_def)

lemma trim_examples:
  "trim [0x20, 0x20] = []" "trim [0x21] = [0x21]" "trim [0xAC00] = [0xAC00]"
  "trim [0xAC00, 0xBC29] = [0xAC00, 0xBC29]"
  by (simp_all add: trim_def is_whitespace_def)

theorem handleSubmit_rejection_witness:
  "trim (inputValue (round_start (word_entry [0xAC00, 0xBC29]) [0x20, 0x20])) = []
   \<and> guesses (handleSubmit (round_start (word_entry [0xAC00, 0xBC29]) [0x20, 0x20])) = []
   \<and> status (handleSubmit (round_start (word_entry [0xAC00, 0xBC29]) [0x20, 0x20])) = playing
   \<and> totalGuesses (stats (handleSubmit (round_start (word_entry [0xAC00, 0xBC29]) [0x20, 0x20])))
       = 0
   \<and> normalizeForComparison (inputValue (round_start (word_entry [0xAC00, 0xBC29]) [0x21])) = []
   \<and> guesses (handleSubmit (round_start (word_entry [0xAC00, 0xBC29]) [0x21])) = []
   \<and> status (handleSubmit (round_start (word_entry [0xAC00, 0xBC29]) [0x21])) = playing
   \<and> totalGuesses (stats (handleSubmit (round_start (word_entry [0xAC00, 0xBC29]) [0x21]))) = 0"
proof -
  have a: "trim (inputValue (round_start (word_entry [0xAC00, 0xBC29]) [0x20, 0x20])) = []"
    by (simp add: round_start_def trim_examples)
  have b: "normalizeForComparison (inputValue (round_start (word_entry [0xAC00, 0xBC29]) [0x21]))
             = []"
    by (simp add: round_start_def normalize_examples)
  have f: "guesses (round_start e i) = []" "status (round_start e i) = playing"
    "totalGuesses (stats (round_start e i)) = 0" for e i
    by (simp_all add: round_start_def)
  from handleSubmit_rejection [of "round_start (word_entry [0xAC00, 0xBC29]) [0x20, 0x20]"]
    handleSubmit_rejection [of "round_start (word_entry [0xAC00, 0xBC29]) [0x21]"] a b
  show ?thesis
    by (simp add: f)
qed





end
